theory Spec2Isabelle
  imports Complex_Main
begin

section \<open>Conventions of the embedding\<close>

text \<open>
  The audio upscaler is embedded over the real and complex numbers: a sample, a magnitude
  and a phase are of type \<^typ>\<open>real\<close>, a spectrum bin is of type \<^typ>\<open>complex\<close>,
  and rounding of the 64-bit floats is not part of the model. Frame size and hop length
  are Python integers (\<^typ>\<open>int\<close>), since the code accepts negative values.
  An array is a list. Every exception the code can raise is a value \<open>Inl e\<close>.
  Where numpy divides a non-empty array by zero it does not raise: it returns \<open>inf\<close>
  or \<open>nan\<close> samples, which \<^typ>\<open>real\<close> does not have; the model stops there with
  \<open>FloatNonFinite\<close>. Python's own float operations do raise: a power whose result
  exceeds the largest float raises \<open>OverflowError\<close>, a division by the float zero raises
  \<open>ZeroDivisionError\<close>. The progress bar and the progress callback have no influence
  on the returned samples and are left out.
\<close>

datatype error = ValueError | ZeroDivisionError | OverflowError | FloatNonFinite

section \<open>Python and numpy primitives used by the code\<close>

text \<open>Integer floor division \<open>a // b\<close>.\<close>

definition py_floordiv :: "int \<Rightarrow> int \<Rightarrow> error + int" where
  "py_floordiv a b = (if b = 0 then Inl ZeroDivisionError else Inr (a div b))"

text \<open>
  \<open>b ** e\<close> for a Python integer \<open>b\<close> and a float \<open>e\<close>, and \<open>1 / p\<close> for a float \<open>p\<close>.
  The power raises when its value lies above the largest finite float
  \<open>(2^53 - 1) * 2^971\<close>; a value of at most \<open>2^-1075\<close>, half the smallest positive float,
  becomes the float zero without an error. Rounding is otherwise not modelled: the few
  values less than half a unit in the last place above the largest float, which the
  machine rounds down to it, count as overflow here.
\<close>

definition float_max :: real where
  "float_max = (2 ^ 53 - 1) * 2 ^ 971"

definition float_tiny :: real where
  "float_tiny = 1 / 2 ^ 1075"

definition py_pow :: "nat \<Rightarrow> real \<Rightarrow> error + real" where
  "py_pow b e =
     (let p = real b powr e in
      if float_max < p then Inl OverflowError
      else if p \<le> float_tiny then Inr 0
      else Inr p)"

definition py_reciprocal :: "real \<Rightarrow> error + real" where
  "py_reciprocal p = (if p = 0 then Inl ZeroDivisionError else Inr (1 / p))"

text \<open>The index normalisation of a slice bound on a sequence of length \<open>n\<close>.\<close>

definition py_bound :: "nat \<Rightarrow> int \<Rightarrow> nat" where
  "py_bound n i = (if i < 0 then nat (max 0 (int n + i)) else min (nat i) n)"

text \<open>\<open>xs[a:b]\<close> and \<open>xs[a:]\<close>.\<close>

definition py_slice :: "'a list \<Rightarrow> int \<Rightarrow> int \<Rightarrow> 'a list" where
  "py_slice xs a b =
     take (py_bound (length xs) b - py_bound (length xs) a) (drop (py_bound (length xs) a) xs)"

definition py_slice_from :: "'a list \<Rightarrow> int \<Rightarrow> 'a list" where
  "py_slice_from xs a = drop (py_bound (length xs) a) xs"

text \<open>\<open>range(start, stop, step)\<close>; a zero step raises.\<close>

definition py_range :: "int \<Rightarrow> int \<Rightarrow> int \<Rightarrow> error + int list" where
  "py_range start stop step =
     (if step = 0 then Inl ValueError
      else if 0 < step
        then Inr (map (\<lambda>k. start + int k * step) [0..<nat ((stop - start + step - 1) div step)])
        else Inr (map (\<lambda>k. start + int k * step) [0..<nat ((start - stop - step - 1) div (- step))]))"

text \<open>
  \<open>np.mean\<close>. On an empty array numpy returns \<open>nan\<close> (with a warning); every use below
  compares the mean against the elements of an array that is empty whenever the averaged
  array is, so the value on the empty list is never observed.
\<close>

definition np_mean :: "real list \<Rightarrow> real" where
  "np_mean xs = sum_list xs / real (length xs)"

text \<open>\<open>np.linspace(a, b, num)\<close> with the end point included.\<close>

definition np_linspace :: "real \<Rightarrow> real \<Rightarrow> nat \<Rightarrow> real list" where
  "np_linspace a b num =
     (if num = 1 then [a]
      else map (\<lambda>i. a + real i * ((b - a) / real (num - 1))) [0..<num])"

text \<open>\<open>np.hanning(M)\<close>: \<open>0.5 + 0.5 * cos(pi * n / (M - 1))\<close> for \<open>n = 1 - M, 3 - M, ..., M - 1\<close>.\<close>

definition np_hanning :: "nat \<Rightarrow> real list" where
  "np_hanning M =
     (if M = 0 then [] else if M = 1 then [1]
      else map (\<lambda>j. 0.5 + 0.5 * cos (pi * (1 - real M + 2 * real j) / (real M - 1))) [0..<M])"

text \<open>
  \<open>scipy.signal.windows.hann(M)\<close> (symmetric): ones for \<open>M \<le> 1\<close>, otherwise the general
  cosine window with coefficients \<open>[0.5, 0.5]\<close> over \<open>linspace(-pi, pi, M)\<close>.
\<close>

definition hann :: "nat \<Rightarrow> real list" where
  "hann M =
     (if M \<le> 1 then replicate M 1
      else map (\<lambda>fac. 0.5 + 0.5 * cos fac) (np_linspace (- pi) pi M))"

text \<open>
  \<open>np.argmax\<close>: the first index of the maximum. The code calls it on a non-empty prefix
  only (guard \<open>lower_region > 0\<close>).
\<close>

fun np_argmax :: "real list \<Rightarrow> nat" where
  "np_argmax [] = 0"
| "np_argmax [x] = 0"
| "np_argmax (x # xs) = (let i = np_argmax xs in if xs ! i \<le> x then 0 else Suc i)"

text \<open>Element-wise product of two one-dimensional arrays, with numpy's broadcasting.\<close>

definition np_mul :: "real list \<Rightarrow> real list \<Rightarrow> error + real list" where
  "np_mul xs ys =
     (if length xs = length ys then Inr (map2 (*) xs ys)
      else if length xs = 1 then Inr (map (\<lambda>y. hd xs * y) ys)
      else if length ys = 1 then Inr (map (\<lambda>x. x * hd ys) xs)
      else Inl ValueError)"

text \<open>
  \<open>np.pad(x, (p, p), mode='reflect')\<close>: a negative width is rejected, an empty array can
  not be extended, a one-element array is extended by its element, and a longer array is
  continued by reflection about its first and last element (period \<open>2 * (n - 1)\<close>).
\<close>

definition reflect_index :: "nat \<Rightarrow> int \<Rightarrow> nat" where
  "reflect_index n i =
     (let period = 2 * (int n - 1); r = i mod period
      in if r < int n then nat r else nat (period - r))"

definition np_pad_reflect :: "real list \<Rightarrow> int \<Rightarrow> error + real list" where
  "np_pad_reflect x p =
     (if p < 0 then Inl ValueError
      else if x = [] then (if p = 0 then Inr [] else Inl ValueError)
      else if length x = 1 then Inr (replicate (nat p) (hd x) @ x @ replicate (nat p) (hd x))
      else Inr (map (\<lambda>i. x ! reflect_index (length x) (int i - p)) [0..<length x + 2 * nat p]))"

text \<open>
  \<open>np.fft.rfft\<close>: bins \<open>0 .. n div 2\<close> of the discrete Fourier transform of a real frame;
  an empty frame is rejected.
\<close>

definition dft_bin :: "real list \<Rightarrow> nat \<Rightarrow> complex" where
  "dft_bin x k =
     (\<Sum>j<length x. of_real (x ! j) * cis (- (2 * pi * real k * real j / real (length x))))"

definition np_rfft :: "real list \<Rightarrow> error + complex list" where
  "np_rfft x =
     (let n = length x in
      if n = 0 then Inl ValueError
      else Inr (map (dft_bin x) [0..<n div 2 + 1]))"

text \<open>
  \<open>np.fft.irfft\<close> without a length argument: for \<open>m\<close> bins the output has \<open>2 * (m - 1)\<close>
  samples; the spectrum is taken as Hermitian, the imaginary parts of the first and the
  last bin are ignored. Fewer than two bins give an invalid number of data points.
\<close>

definition c2r_sample :: "complex list \<Rightarrow> nat \<Rightarrow> real" where
  "c2r_sample X j =
     (let m = length X; n = 2 * (m - 1) in
      (Re (X ! 0)
       + (\<Sum>k = 1..<m - 1. 2 * Re (X ! k * cis (2 * pi * real k * real j / real n)))
       + Re (X ! (m - 1)) * (- 1) ^ j) / real n)"

definition np_irfft :: "complex list \<Rightarrow> error + real list" where
  "np_irfft X =
     (let m = length X; n = 2 * (m - 1) in
      if m < 2 then Inl ValueError
      else Inr (map (c2r_sample X) [0..<n]))"

section \<open>Spectral enhancers (enhancers/spectral.py)\<close>

text \<open>
  The four enhancer classes with their constructor fields. The transient enhancer also
  carries its mutable field \<open>_prev_magnitudes\<close>, \<open>None\<close> after construction. No enhancer
  writes into an array it was given, so the stored array is kept by value.
\<close>

datatype enhancer =
    HarmonicEnhancer real real bool
  | SpectralWidener real "real \<times> real"
  | ExciterEnhancer real "real \<times> real"
  | TransientEnhancer real real "real list option"

text \<open>
  One pass of the loop body of \<open>HarmonicEnhancer.process\<close> for one harmonic number. The
  boost \<open>harmonic_boost * (1 / (harmonic ** harmonic_decay))\<close> is computed with Python
  floats, so it can raise.
\<close>

definition boost_harmonic ::
  "real \<Rightarrow> real \<Rightarrow> nat \<Rightarrow> real list \<Rightarrow> nat \<Rightarrow> error + real list" where
  "boost_harmonic harmonic_boost harmonic_decay fundamental_idx enhanced harmonic =
     (let n = length enhanced; harmonic_idx = fundamental_idx * harmonic in
      if harmonic_idx < n then
        (case py_pow harmonic harmonic_decay of
           Inl e \<Rightarrow> Inl e
         | Inr p \<Rightarrow>
             (case py_reciprocal p of
                Inl e \<Rightarrow> Inl e
              | Inr q \<Rightarrow>
                  let boost = harmonic_boost * q;
                      window_size = max 3 (min 5 (n div 1000));
                      start_idx = harmonic_idx - window_size;
                      end_idx = min n (harmonic_idx + window_size + 1);
                      window = np_hanning (end_idx - start_idx);
                      boost_factors = map (\<lambda>w. 1 + w * (boost - 1)) window
                  in Inr (take start_idx enhanced
                          @ map2 (*) (take (end_idx - start_idx) (drop start_idx enhanced))
                              boost_factors
                          @ drop end_idx enhanced)))
      else Inr enhanced)"

text \<open>The loop \<open>for harmonic in range(2, 8)\<close> over the harmonic numbers still to visit.\<close>

fun harmonic_loop :: "real \<Rightarrow> real \<Rightarrow> nat \<Rightarrow> nat list \<Rightarrow> real list \<Rightarrow> error + real list" where
  "harmonic_loop harmonic_boost harmonic_decay fundamental_idx [] enhanced = Inr enhanced"
| "harmonic_loop harmonic_boost harmonic_decay fundamental_idx (harmonic # rest) enhanced =
     (case boost_harmonic harmonic_boost harmonic_decay fundamental_idx enhanced harmonic of
        Inl e \<Rightarrow> Inl e
      | Inr enhanced' \<Rightarrow>
          harmonic_loop harmonic_boost harmonic_decay fundamental_idx rest enhanced')"

definition harmonic_process ::
  "real \<Rightarrow> real \<Rightarrow> real list \<Rightarrow> real list \<Rightarrow> error + (real list \<times> real list)" where
  "harmonic_process harmonic_boost harmonic_decay magnitudes phases =
     (let lower_region = min (length magnitudes div 5) 100 in
      if lower_region > 0 then
        let fundamental_idx = np_argmax (take lower_region magnitudes) in
        if fundamental_idx > 0
        then (case harmonic_loop harmonic_boost harmonic_decay fundamental_idx [2..<8] magnitudes of
                Inl e \<Rightarrow> Inl e
              | Inr enhanced \<Rightarrow> Inr (enhanced, phases))
        else Inr (magnitudes, phases)
      else Inr (magnitudes, phases))"

definition widener_process :: "real \<Rightarrow> real list \<Rightarrow> real list \<Rightarrow> real list \<times> real list" where
  "widener_process width magnitudes phases =
     (let phase_shift = np_linspace 0 (pi / 4 * (width - 1)) (length phases)
      in (magnitudes, map2 (+) phases phase_shift))"

text \<open>
  \<open>ExciterEnhancer.process\<close>. With \<open>drive = 0\<close> the quotient \<open>tanh(0) / 0\<close> is \<open>nan\<close> in
  every bin.
\<close>

definition exciter_process :: "real \<Rightarrow> real list \<Rightarrow> real list \<Rightarrow> error + (real list \<times> real list)" where
  "exciter_process drive magnitudes phases =
     (if drive = 0 \<and> magnitudes \<noteq> [] then Inl FloatNonFinite
      else
        let saturated = map (\<lambda>m. tanh (m * drive) / drive) magnitudes;
            n = length saturated;
            mask = map (\<lambda>i. if n div 8 \<le> i \<and> i < n div 2 then 1.1 else 1) [0..<n]
        in Inr (map2 (*) saturated mask, phases))"

text \<open>
  \<open>TransientEnhancer.process\<close>, returning the new value of \<open>_prev_magnitudes\<close> as well.
  The subtraction broadcasts a stored array of length one; any other length mismatch
  raises.
\<close>

definition transient_process ::
  "real \<Rightarrow> real \<Rightarrow> real list option \<Rightarrow> real list \<Rightarrow> real list
     \<Rightarrow> error + ((real list \<times> real list) \<times> real list option)" where
  "transient_process sensitivity attack_boost prev magnitudes phases =
     (case prev of
        None \<Rightarrow> Inr ((magnitudes, phases), Some magnitudes)
      | Some p \<Rightarrow>
          if length p = length magnitudes \<or> length p = 1 then
            let flux = (if length p = length magnitudes then map2 (-) magnitudes p
                        else map (\<lambda>m. m - hd p) magnitudes);
                positive_flux = map (max 0) flux;
                threshold = np_mean positive_flux * (1 + sensitivity * 5);
                transient_mask = map (\<lambda>f. threshold < f) positive_flux;
                boost_amount = map (\<lambda>b. 1 + (if b then 1 else 0) * (attack_boost - 1)) transient_mask
            in Inr ((map2 (*) magnitudes boost_amount, phases), Some magnitudes)
          else Inl ValueError)"

fun process :: "enhancer \<Rightarrow> real list \<Rightarrow> real list \<Rightarrow> error + ((real list \<times> real list) \<times> enhancer)" where
  "process (HarmonicEnhancer hb dc pp) magnitudes phases =
     (case harmonic_process hb dc magnitudes phases of
        Inl e \<Rightarrow> Inl e
      | Inr r \<Rightarrow> Inr (r, HarmonicEnhancer hb dc pp))"
| "process (SpectralWidener w fr) magnitudes phases =
     Inr (widener_process w magnitudes phases, SpectralWidener w fr)"
| "process (ExciterEnhancer d fr) magnitudes phases =
     (case exciter_process d magnitudes phases of
        Inl e \<Rightarrow> Inl e
      | Inr r \<Rightarrow> Inr (r, ExciterEnhancer d fr))"
| "process (TransientEnhancer s ab prev) magnitudes phases =
     (case transient_process s ab prev magnitudes phases of
        Inl e \<Rightarrow> Inl e
      | Inr (r, prev') \<Rightarrow> Inr (r, TransientEnhancer s ab prev'))"

text \<open>\<open>apply_enhancer_chain\<close>, returning the enhancers in their new state.\<close>

fun apply_enhancer_chain ::
  "real list \<Rightarrow> real list \<Rightarrow> enhancer list \<Rightarrow> error + ((real list \<times> real list) \<times> enhancer list)" where
  "apply_enhancer_chain magnitudes phases [] = Inr ((magnitudes, phases), [])"
| "apply_enhancer_chain magnitudes phases (e # es) =
     (case process e magnitudes phases of
        Inl err \<Rightarrow> Inl err
      | Inr ((m', p'), e') \<Rightarrow>
          (case apply_enhancer_chain m' p' es of
             Inl err \<Rightarrow> Inl err
           | Inr (r, es') \<Rightarrow> Inr (r, e' # es')))"

section \<open>The upscaler (core/upscaler.py)\<close>

record AudioUpscaler =
  intensity :: real
  harmonics_boost :: real
  noise_reduction :: real
  dynamic_boost :: real
  clarity_enhance :: bool
  enhancer_chain :: "enhancer list"

text \<open>
  \<open>AudioUpscaler.__init__\<close>: the arguments are stored as they are; \<open>enhancer_chain or []\<close>
  turns a missing chain into the empty one. The constructor has no raising statement.
\<close>

definition AudioUpscaler_init ::
  "real \<Rightarrow> real \<Rightarrow> real \<Rightarrow> real \<Rightarrow> bool \<Rightarrow> enhancer list option \<Rightarrow> error + AudioUpscaler" where
  "AudioUpscaler_init i hb nr db ce chain =
     Inr \<lparr>intensity = i, harmonics_boost = hb, noise_reduction = nr, dynamic_boost = db,
          clarity_enhance = ce,
          enhancer_chain = (case chain of None \<Rightarrow> [] | Some c \<Rightarrow> c)\<rparr>"

subsection \<open>The built-in stages of \<open>_process_frame\<close>\<close>

definition noise_floor_stage :: "real \<Rightarrow> real list \<Rightarrow> real list" where
  "noise_floor_stage nr mags =
     (if nr > 0 then
        let noise_floor = np_mean (py_slice_from mags ((- int (length mags)) div 5));
            mask = map (\<lambda>m. noise_floor * (1 + nr * 3) < m) mags
        in map2 (\<lambda>m b. m * (if b then 1 else 0)) mags mask
      else mags)"

definition harmonic_boost_stage :: "real \<Rightarrow> real list \<Rightarrow> real list" where
  "harmonic_boost_stage hb mags =
     (if hb > 0 then
        let harmonic_region = length mags div 2;
            boost_curve = np_linspace 1.0 0.1 harmonic_region;
            boost_amount = map (\<lambda>c. 1.0 + c * hb) boost_curve
        in map2 (*) (take harmonic_region mags) boost_amount @ drop harmonic_region mags
      else mags)"

definition intensity_stage :: "real \<Rightarrow> real list \<Rightarrow> real list" where
  "intensity_stage i mags = map (\<lambda>m. m * i) mags"

definition dynamic_range_stage :: "real \<Rightarrow> real list \<Rightarrow> real list" where
  "dynamic_range_stage db mags =
     (if db \<noteq> 1 then
        let mean_magnitude = np_mean mags
        in map (\<lambda>m. max 0 (mean_magnitude + (m - mean_magnitude) * db)) mags
      else mags)"

definition clarity_stage :: "bool \<Rightarrow> real list \<Rightarrow> real list" where
  "clarity_stage ce mags =
     (if ce then
        let mid_start = length mags div 8; mid_end = length mags div 3
        in take mid_start mags
           @ map (\<lambda>m. m * 1.2) (take (mid_end - mid_start) (drop mid_start mags))
           @ drop mid_end mags
      else mags)"

definition builtin_stages :: "AudioUpscaler \<Rightarrow> real list \<Rightarrow> real list" where
  "builtin_stages self mags =
     clarity_stage (clarity_enhance self)
       (dynamic_range_stage (dynamic_boost self)
         (intensity_stage (intensity self)
           (harmonic_boost_stage (harmonics_boost self)
             (noise_floor_stage (noise_reduction self) mags))))"

text \<open>Analysis and synthesis, the first and the last lines of \<open>_process_frame\<close>.\<close>

definition analyze :: "real list \<Rightarrow> error + (real list \<times> real list)" where
  "analyze frame =
     (case np_rfft frame of
        Inl e \<Rightarrow> Inl e
      | Inr fft_data \<Rightarrow> Inr (map cmod fft_data, map Arg fft_data))"

definition synthesize :: "real list \<times> real list \<Rightarrow> error + real list" where
  "synthesize spectrum =
     np_irfft (map2 (\<lambda>m p. of_real m * cis p) (fst spectrum) (snd spectrum))"

text \<open>Analysis followed at once by synthesis, with no stage in between.\<close>

definition roundtrip :: "real list \<Rightarrow> error + real list" where
  "roundtrip frame =
     (case analyze frame of
        Inl e \<Rightarrow> Inl e
      | Inr spectrum \<Rightarrow> synthesize spectrum)"

text \<open>\<open>_process_frame\<close>, returning the upscaler with the state its enhancers are left in.\<close>

definition process_frame :: "AudioUpscaler \<Rightarrow> real list \<Rightarrow> error + (real list \<times> AudioUpscaler)" where
  "process_frame self frame =
     (case analyze frame of
        Inl e \<Rightarrow> Inl e
      | Inr (magnitudes, phases) \<Rightarrow>
          (case (if enhancer_chain self \<noteq> []
                 then apply_enhancer_chain (builtin_stages self magnitudes) phases (enhancer_chain self)
                 else Inr ((builtin_stages self magnitudes, phases), enhancer_chain self)) of
             Inl e \<Rightarrow> Inl e
           | Inr (spectrum, chain') \<Rightarrow>
               (case synthesize spectrum of
                  Inl e \<Rightarrow> Inl e
                | Inr enhanced_frame \<Rightarrow> Inr (enhanced_frame, self\<lparr>enhancer_chain := chain'\<rparr>))))"

subsection \<open>\<open>_process_channel\<close>\<close>

text \<open>\<open>enhanced_audio[i:i+frame_size] += windowed\<close>.\<close>

definition add_into :: "real list \<Rightarrow> int \<Rightarrow> int \<Rightarrow> real list \<Rightarrow> error + real list" where
  "add_into enhanced i frame_size windowed =
     (let lo = py_bound (length enhanced) i;
          target = py_slice enhanced i (i + frame_size)
      in if length windowed = length target
           then Inr (take lo enhanced @ map2 (+) target windowed @ drop (lo + length target) enhanced)
         else if length windowed = 1
           then Inr (take lo enhanced @ map (\<lambda>t. t + hd windowed) target
                     @ drop (lo + length target) enhanced)
         else Inl ValueError)"

text \<open>The offsets the loop visits, and the frame count announced to the progress bar.\<close>

definition frame_offsets :: "int \<Rightarrow> int \<Rightarrow> int \<Rightarrow> error + int list" where
  "frame_offsets padded_len frame_size hop_length = py_range 0 (padded_len - frame_size) hop_length"

definition total_frames :: "int \<Rightarrow> int \<Rightarrow> int \<Rightarrow> error + int" where
  "total_frames padded_len frame_size hop_length =
     (case py_floordiv (padded_len - frame_size) hop_length of
        Inl e \<Rightarrow> Inl e
      | Inr q \<Rightarrow> Inr (1 + q))"

text \<open>The body of the \<open>for\<close> loop, over the list of offsets still to visit.\<close>

fun frame_loop ::
  "real list \<Rightarrow> int \<Rightarrow> int list \<Rightarrow> real list \<times> AudioUpscaler \<Rightarrow> error + (real list \<times> AudioUpscaler)" where
  "frame_loop padded_audio frame_size [] (enhanced_audio, self) = Inr (enhanced_audio, self)"
| "frame_loop padded_audio frame_size (i # rest) (enhanced_audio, self) =
     (case process_frame self (py_slice padded_audio i (i + frame_size)) of
        Inl e \<Rightarrow> Inl e
      | Inr (enhanced_frame, self') \<Rightarrow>
          (case np_mul enhanced_frame (hann (nat frame_size)) of
             Inl e \<Rightarrow> Inl e
           | Inr windowed \<Rightarrow>
               (case add_into enhanced_audio i frame_size windowed of
                  Inl e \<Rightarrow> Inl e
                | Inr enhanced_audio' \<Rightarrow>
                    frame_loop padded_audio frame_size rest (enhanced_audio', self'))))"

text \<open>
  \<open>_process_channel\<close> up to and including the removal of the padding. Dividing by
  \<open>num_overlaps\<close> and slicing commute; a zero \<open>num_overlaps\<close> leaves \<open>inf\<close>/\<open>nan\<close> samples in
  the result exactly when the slice is not empty.
\<close>

definition accumulate_channel ::
  "AudioUpscaler \<Rightarrow> real list \<Rightarrow> int \<Rightarrow> int \<Rightarrow> error + (real list \<times> AudioUpscaler)" where
  "accumulate_channel self channel_data frame_size hop_length =
     (case np_pad_reflect channel_data frame_size of
        Inl e \<Rightarrow> Inl e
      | Inr padded_audio \<Rightarrow>
          (case total_frames (int (length padded_audio)) frame_size hop_length of
             Inl e \<Rightarrow> Inl e
           | Inr n_frames \<Rightarrow>
               (case frame_offsets (int (length padded_audio)) frame_size hop_length of
                  Inl e \<Rightarrow> Inl e
                | Inr offsets \<Rightarrow>
                    (case frame_loop padded_audio frame_size offsets
                            (replicate (length padded_audio) 0, self) of
                       Inl e \<Rightarrow> Inl e
                     | Inr (enhanced_audio, self') \<Rightarrow>
                         (case py_floordiv frame_size hop_length of
                            Inl e \<Rightarrow> Inl e
                          | Inr num_overlaps \<Rightarrow>
                              let unpadded = py_slice enhanced_audio frame_size (- frame_size)
                              in if num_overlaps = 0 \<and> unpadded \<noteq> [] then Inl FloatNonFinite
                                 else Inr (map (\<lambda>s. s / of_int num_overlaps) unpadded, self'))))))"

text \<open>The level normalisation at the end of \<open>_process_channel\<close>; \<open>np.max\<close> rejects an empty array.\<close>

definition normalize_level :: "real list \<Rightarrow> error + real list" where
  "normalize_level enhanced_audio =
     (if enhanced_audio = [] then Inl ValueError
      else
        let max_val = Max (set (map abs enhanced_audio)) in
        if max_val > 0 then Inr (map (\<lambda>s. s * (0.95 / max_val)) enhanced_audio)
        else Inr enhanced_audio)"

definition process_channel ::
  "AudioUpscaler \<Rightarrow> real list \<Rightarrow> int \<Rightarrow> int \<Rightarrow> error + (real list \<times> AudioUpscaler)" where
  "process_channel self channel_data frame_size hop_length =
     (case accumulate_channel self channel_data frame_size hop_length of
        Inl e \<Rightarrow> Inl e
      | Inr (enhanced_audio, self') \<Rightarrow>
          (case normalize_level enhanced_audio of
             Inl e \<Rightarrow> Inl e
           | Inr out \<Rightarrow> Inr (out, self')))"

subsection \<open>\<open>process_audio\<close>\<close>

text \<open>
  The input is a one-dimensional array or an array of rows with two columns; arrays of
  other shapes are not modelled.
\<close>

datatype audio = Mono "real list" | Stereo "(real \<times> real) list"

definition column_stack :: "real list \<Rightarrow> real list \<Rightarrow> error + (real \<times> real) list" where
  "column_stack l r = (if length l = length r then Inr (zip l r) else Inl ValueError)"

definition process_audio ::
  "AudioUpscaler \<Rightarrow> audio \<Rightarrow> int \<Rightarrow> int \<Rightarrow> error + (audio \<times> AudioUpscaler)" where
  "process_audio self audio_data frame_size hop_length =
     (case audio_data of
        Stereo rows \<Rightarrow>
          (case process_channel self (map fst rows) frame_size hop_length of
             Inl e \<Rightarrow> Inl e
           | Inr (enhanced_left, self1) \<Rightarrow>
               (case process_channel self1 (map snd rows) frame_size hop_length of
                  Inl e \<Rightarrow> Inl e
                | Inr (enhanced_right, self2) \<Rightarrow>
                    (case column_stack enhanced_left enhanced_right of
                       Inl e \<Rightarrow> Inl e
                     | Inr enhanced_audio \<Rightarrow> Inr (Stereo enhanced_audio, self2))))
      | Mono channel \<Rightarrow>
          (case process_channel self channel frame_size hop_length of
             Inl e \<Rightarrow> Inl e
           | Inr (enhanced_audio, self') \<Rightarrow> Inr (Mono enhanced_audio, self')))"

subsection \<open>Upscalers used in the examples\<close>

text \<open>The no-op configuration.\<close>

definition noop_upscaler :: AudioUpscaler where
  "noop_upscaler = \<lparr>intensity = 1, harmonics_boost = 0, noise_reduction = 0, dynamic_boost = 1,
      clarity_enhance = False, enhancer_chain = []\<rparr>"

text \<open>
  The no-op configuration with a chain of two transient enhancers (sensitivity 0, attack
  boost 0.5), as a function of the magnitudes the two enhancers hold.
\<close>

definition two_transients :: "real list option \<Rightarrow> real list option \<Rightarrow> AudioUpscaler" where
  "two_transients p q = \<lparr>intensity = 1, harmonics_boost = 0, noise_reduction = 0, dynamic_boost = 1,
      clarity_enhance = False,
      enhancer_chain = [TransientEnhancer 0 (1 / 2) p, TransientEnhancer 0 (1 / 2) q]\<rparr>"

text \<open>The configuration of the constructor's default arguments.\<close>

definition default_upscaler :: AudioUpscaler where
  "default_upscaler = \<lparr>intensity = 1.5, harmonics_boost = 0.3, noise_reduction = 0.2,
      dynamic_boost = 1.2, clarity_enhance = True, enhancer_chain = []\<rparr>"

text \<open>A configuration in which every numeric parameter is negative.\<close>

definition negative_upscaler :: AudioUpscaler where
  "negative_upscaler = \<lparr>intensity = - 1, harmonics_boost = - 1, noise_reduction = - 1,
      dynamic_boost = - 1, clarity_enhance = False, enhancer_chain = []\<rparr>"

subsection \<open>Predicates used in the statements\<close>

text \<open>
  A magnitude sequence without negative values; an enhancer whose numeric parameters are
  not negative; an enhancer whose parameters keep its float operations in range (an
  exciter drive strictly above zero, a harmonic decay for which \<open>7 ** harmonic_decay\<close> does
  not overflow); an upscaler whose numeric parameters are not negative.
\<close>

fun nonneg :: "real list \<Rightarrow> bool" where
  "nonneg [] = True"
| "nonneg (x # xs) = (0 \<le> x \<and> nonneg xs)"

fun params_nonneg :: "enhancer \<Rightarrow> bool" where
  "params_nonneg (HarmonicEnhancer hb dc pp) = (0 \<le> hb \<and> 0 \<le> dc)"
| "params_nonneg (SpectralWidener w fr) = (0 \<le> w)"
| "params_nonneg (ExciterEnhancer d fr) = (0 \<le> d)"
| "params_nonneg (TransientEnhancer s ab prev) = (0 \<le> s \<and> 0 \<le> ab)"

fun params_in_range :: "enhancer \<Rightarrow> bool" where
  "params_in_range (ExciterEnhancer d fr) = (0 < d)"
| "params_in_range (HarmonicEnhancer hb dc pp) = (7 powr dc \<le> float_max)"
| "params_in_range e = True"

definition config_nonneg :: "AudioUpscaler \<Rightarrow> bool" where
  "config_nonneg self = (0 \<le> intensity self \<and> 0 \<le> harmonics_boost self
      \<and> 0 \<le> noise_reduction self \<and> 0 \<le> dynamic_boost self)"

subsection \<open>Quantities used in the statements about the no-op configuration\<close>

text \<open>
  The weight a padded sample at index \<open>t\<close> receives from the overlap-add: the sum of the
  window values \<open>hann(frame_size)[t - i]\<close> over the visited offsets \<open>i\<close> whose frame
  covers \<open>t\<close>. The gain of the level normalisation: \<open>0.95 / max_val\<close> if \<open>max_val > 0\<close>,
  and no change of level otherwise.
\<close>

definition overlap_weight :: "int list \<Rightarrow> int \<Rightarrow> int \<Rightarrow> real" where
  "overlap_weight offsets frame_size t =
     sum_list (map (\<lambda>i. if i \<le> t \<and> t < i + frame_size
                          then hann (nat frame_size) ! nat (t - i) else 0) offsets)"

definition level_gain :: "real list \<Rightarrow> real" where
  "level_gain acc =
     (if 0 < Max (set (map abs acc)) then 0.95 / Max (set (map abs acc)) else 1)"

section \<open>Auxiliary facts about lists\<close>

lemma map2_sub_self: "map2 (-) (xs::real list) xs = replicate (length xs) 0"
  by (induction xs) auto

lemma np_mean_zeros: "np_mean (replicate n 0) = 0"
  by (simp add: np_mean_def sum_list_replicate)

lemma map2_mul_ones: "map2 (*) (xs::real list) (replicate (length xs) 1) = xs"
  by (induction xs) auto

lemma map2_mask:
  "map2 (\<lambda>m b. m * (if b then 1 else 0)) xs (map P xs) = map (\<lambda>m. if P m then m else (0::real)) xs"
  by (induction xs) auto

text \<open>The slice \<open>mags[-len(mags)//5:]\<close> holds the last \<open>ceil(len(mags) / 5)\<close> bins.\<close>

lemma noise_slice:
  "py_slice_from mags ((- int (length mags)) div 5)
     = drop (length mags - (length mags + 4) div 5) mags"
proof -
  have "py_bound (length mags) ((- int (length mags)) div 5)
          = length mags - (length mags + 4) div 5"
    unfolding py_bound_def by (auto simp: max_def; linarith?)
  then show ?thesis by (simp add: py_slice_from_def)
qed

section \<open>The enhancer chain\<close>

text \<open>
  Claim C10. Applying the enhancer chain with an empty list of enhancers is the identity:
  the magnitudes and the phases come back as they were given.
\<close>

theorem apply_enhancer_chain_empty:
  "apply_enhancer_chain magnitudes phases [] = Inr ((magnitudes, phases), [])"
  by simp

section \<open>The transient enhancer\<close>

text \<open>
  Claim C7. A freshly constructed transient enhancer returns its first frame unchanged and
  stores the magnitudes as history. Given the same magnitudes again, it returns them
  unchanged once more: the transient mask, computed from the clipped flux and its
  threshold, is false in every bin.
\<close>

theorem transient_identical_frames:
  "process (TransientEnhancer s ab None) m p = Inr ((m, p), TransientEnhancer s ab (Some m))
   \<and> process (TransientEnhancer s ab (Some m)) m p' = Inr ((m, p'), TransientEnhancer s ab (Some m))
   \<and> map (\<lambda>f. np_mean (map (max 0) (map2 (-) m m)) * (1 + s * 5) < f) (map (max 0) (map2 (-) m m))
       = replicate (length m) False"
  by (simp add: transient_process_def map2_sub_self np_mean_zeros map2_mul_ones Let_def)

section \<open>The noise-floor stage\<close>

text \<open>
  Claim C8. With a noise reduction strength above zero, the noise floor is the mean
  magnitude of the last \<open>ceil(n / 5)\<close> of the \<open>n\<close> bins (the highest frequencies, one fifth
  of the bins); a bin whose magnitude does not strictly exceed \<open>floor * (1 + 3 * strength)\<close>
  becomes zero, every other bin keeps its magnitude.
\<close>

theorem noise_floor_stage_mask:
  "0 < nr \<Longrightarrow>
   noise_floor_stage nr mags =
     map (\<lambda>m. if np_mean (drop (length mags - (length mags + 4) div 5) mags) * (1 + nr * 3) < m
               then m else 0) mags"
  by (simp add: noise_floor_stage_def noise_slice map2_mask Let_def)

theorem noise_floor_stage_mask_witness:
  "(0::real) < 1 / 2 \<and> noise_floor_stage (1 / 2) [10, 1, 1, 1, 3] = [10, 0, 0, 0, 0]"
  using noise_floor_stage_mask [of "1 / 2" "[10, 1, 1, 1, 3]"]
  by (simp add: np_mean_def)

section \<open>The frame loop\<close>

text \<open>
  Claim C4, evaluated on a channel of 22528 samples with the default frame size 2048 and
  hop length 1024 (padded length 26624). The loop visits the 24 offsets
  \<open>0, 1024, ..., 23552\<close>. At offset 24576 exactly one frame of 2048 samples remains; the
  frame count of the progress bar includes it (25 frames), the loop does not visit it.
\<close>

theorem frame_loop_skips_last_offset:
  "frame_offsets 26624 2048 1024 = Inr (map (\<lambda>k. int k * 1024) [0..<24])
   \<and> (24576::int) + 2048 \<le> 26624
   \<and> total_frames 26624 2048 1024 = Inr 25"
  by (simp add: frame_offsets_def py_range_def total_frames_def py_floordiv_def)

section \<open>The transform pair\<close>

text \<open>
  The inverse transform undoes the forward transform on frames of even length: the cosine
  kernel \<open>1 + 2 * (cos t + ... + cos ((N/2 - 1) * t)) + cos (N/2 * t)\<close> with
  \<open>t = 2 * pi * d / N\<close> is \<open>N\<close> for \<open>d = 0\<close> and vanishes for every other \<open>d\<close> between
  \<open>-N\<close> and \<open>N\<close>.
\<close>

lemma cis_ne_1:
  assumes "0 < N" "\<not> (int N dvd d)"
  shows "cis (2 * pi * real_of_int d / real N) \<noteq> 1"
proof
  assume "cis (2 * pi * real_of_int d / real N) = 1"
  then have "cos (2 * pi * real_of_int d / real N) = 1"
    by (metis cis.sel(1) one_complex.sel(1))
  then obtain n :: int where n: "2 * pi * real_of_int d / real N = real_of_int n * 2 * pi"
    using cos_one_2pi_int by blast
  then have "2 * pi * (real_of_int d / real N) = 2 * pi * real_of_int n"
    by (simp add: mult.commute mult.left_commute)
  then have "real_of_int d / real N = real_of_int n"
    using pi_gt_zero by (metis mult_cancel_left less_irrefl zero_neq_numeral mult_eq_0_iff)
  then have "real_of_int d = real_of_int n * real N"
    using assms(1) by (simp add: field_simps)
  then have "d = n * int N"
    by (metis of_int_eq_iff of_int_mult of_int_of_nat_eq)
  then show False using assms(2) by simp
qed

lemma cos_sum_full:
  assumes "0 < N" "\<not> (int N dvd d)"
  shows "(\<Sum>k<N. cos (real k * (2 * pi * real_of_int d / real N))) = 0"
proof -
  define z where "z = cis (2 * pi * real_of_int d / real N)"
  have z1: "z \<noteq> 1" unfolding z_def by (rule cis_ne_1 [OF assms])
  have "z ^ N = cis (2 * pi * real_of_int d)"
    unfolding z_def using assms(1) by (simp add: DeMoivre)
  then have zN: "z ^ N = 1" by (simp add: cis_multiple_2pi)
  have "(\<Sum>k<N. z ^ k) = 0"
    using geometric_sum [OF z1, of N] zN by simp
  then have "Re (\<Sum>k<N. z ^ k) = 0" by simp
  then show ?thesis
    unfolding z_def by (simp add: DeMoivre)
qed

lemma kernel_offdiag:
  assumes "even N" "2 \<le> N" "\<not> (int N dvd d)"
  shows "1 + (\<Sum>k = 1..<N div 2. 2 * cos (real k * (2 * pi * real_of_int d / real N)))
           + cos (pi * real_of_int d) = 0"
proof -
  define h where "h = N div 2"
  define t where "t = 2 * pi * real_of_int d / real N"
  have N: "N = 2 * h" "1 \<le> h" using assms by (auto simp: h_def)
  have ht: "real h * t = pi * real_of_int d"
    unfolding t_def using N by (simp add: field_simps)
  have Nt: "real N * t = 2 * pi * real_of_int d"
    unfolding t_def using N by (simp add: field_simps)
  have split: "{..<N} = {0} \<union> {1..<h} \<union> {h} \<union> {h+1..<N}"
    using N by auto
  have full: "(\<Sum>k<N. cos (real k * t)) = 0"
    unfolding t_def by (rule cos_sum_full) (use assms in auto)
  have refl: "(\<Sum>k\<in>{h+1..<N}. cos (real k * t)) = (\<Sum>k\<in>{1..<h}. cos (real k * t))"
  proof (rule sum.reindex_bij_witness [where i = "\<lambda>k. N - k" and j = "\<lambda>k. N - k"])
    fix k assume k: "k \<in> {h+1..<N}"
    show "N - (N - k) = k" using k by auto
    show "N - k \<in> {1..<h}" using k N by auto
    have "real (N - k) * t = real N * t - real k * t"
      using k by (simp add: of_nat_diff algebra_simps)
    also have "\<dots> = - (real k * t) + (2 * pi) * real_of_int d"
      using Nt by simp
    finally have "cos (real (N - k) * t) = cos (- (real k * t) + (2 * pi) * real_of_int d)" by simp
    also have "\<dots> = cos (- (real k * t))"
      unfolding cos_add cos_int_2pin sin_int_2pin by simp
    finally show "cos (real (N - k) * t) = cos (real k * t)" by simp
  next
    fix k assume k: "k \<in> {1..<h}"
    show "N - (N - k) = k" using k N by auto
    show "N - k \<in> {h+1..<N}" using k N by auto
  qed
  have a: "(\<Sum>k<N. cos (real k * t))
             = (\<Sum>k = 0..<Suc h. cos (real k * t)) + (\<Sum>k = Suc h..<N. cos (real k * t))"
    unfolding lessThan_atLeast0
    by (rule sum.atLeastLessThan_concat [symmetric]) (use N in auto)
  have b: "(\<Sum>k = 0..<Suc h. cos (real k * t))
             = 1 + (\<Sum>k = 1..<h. cos (real k * t)) + cos (real h * t)"
    using N by (simp add: sum.atLeast_Suc_lessThan)
  have "(\<Sum>k<N. cos (real k * t)) =
        1 + (\<Sum>k\<in>{1..<h}. cos (real k * t)) + cos (real h * t) + (\<Sum>k\<in>{h+1..<N}. cos (real k * t))"
    using a b by simp
  then have "1 + 2 * (\<Sum>k\<in>{1..<h}. cos (real k * t)) + cos (real h * t) = 0"
    using full refl by simp
  then show ?thesis
    unfolding h_def [symmetric] t_def [symmetric] ht by (simp add: sum_distrib_left)
qed


lemma kernel:
  assumes "even N" "2 \<le> N" "j < N" "l < N"
  shows "1 + (\<Sum>k = 1..<N div 2. 2 * cos (real k * (2 * pi * real_of_int (int j - int l) / real N)))
           + cos (pi * real_of_int (int j - int l)) = (if l = j then real N else 0)"
proof (cases "l = j")
  case True
  have "real (N div 2 - Suc 0) * 2 + 2 = real N"
    using assms(1,2) by (auto elim!: evenE simp: of_nat_diff algebra_simps)
  then show ?thesis using True by (simp add: algebra_simps)
next
  case False
  have "\<not> int N dvd (int j - int l)"
  proof
    assume d: "int N dvd (int j - int l)"
    have "int j - int l \<noteq> 0" using False by simp
    then have "int N \<le> \<bar>int j - int l\<bar>"
      using d by (metis dvd_imp_le_int abs_of_nat)
    then show False using assms(3,4) by linarith
  qed
  from kernel_offdiag [OF assms(1,2) this] show ?thesis
    using False by (simp only: if_False)
qed

lemma sum_kernel_swap:
  fixes c :: "nat \<Rightarrow> nat \<Rightarrow> real"
  shows "(\<Sum>l<N. x l * 1) + (\<Sum>k = 1..<h. 2 * (\<Sum>l<N. x l * c k l)) + (\<Sum>l<N. x l * e l)
         = (\<Sum>l<N. x l * (1 + (\<Sum>k = 1..<h. 2 * c k l) + e l))"
proof -
  have "(\<Sum>k = 1..<h. 2 * (\<Sum>l<N. x l * c k l)) = (\<Sum>k = 1..<h. \<Sum>l<N. 2 * (x l * c k l))"
    by (simp add: sum_distrib_left)
  also have "\<dots> = (\<Sum>l<N. \<Sum>k = 1..<h. 2 * (x l * c k l))"
    by (rule sum.swap)
  also have "\<dots> = (\<Sum>l<N. x l * (\<Sum>k = 1..<h. 2 * c k l))"
    by (rule sum.cong [OF refl]) (simp add: sum_distrib_left mult_ac)
  finally show ?thesis
    by (simp add: sum.distrib distrib_left)
qed

lemma Re_bin_times_cis:
  "Re ((\<Sum>l<N. of_real (x ! l) * cis (- (2 * pi * real k * real l / real N)))
        * cis (2 * pi * real k * real j / real N))
   = (\<Sum>l<N. x ! l * cos (real k * (2 * pi * real_of_int (int j - int l) / real N)))"
proof -
  have "(\<Sum>l<N. of_real (x ! l) * cis (- (2 * pi * real k * real l / real N)))
          * cis (2 * pi * real k * real j / real N)
        = (\<Sum>l<N. of_real (x ! l) * cis (real k * (2 * pi * real_of_int (int j - int l) / real N)))"
    unfolding sum_distrib_right
  proof (rule sum.cong [OF refl])
    fix l
    have "- (2 * pi * real k * real l / real N) + 2 * pi * real k * real j / real N
            = real k * (2 * pi * real_of_int (int j - int l) / real N)"
      by (simp add: algebra_simps diff_divide_distrib)
    then show "of_real (x ! l) * cis (- (2 * pi * real k * real l / real N))
                 * cis (2 * pi * real k * real j / real N)
               = of_real (x ! l) * cis (real k * (2 * pi * real_of_int (int j - int l) / real N))"
      by (simp add: mult.assoc cis_mult)
  qed
  then show ?thesis by simp
qed

lemma irfft_rfft_sample:
  fixes x :: "real list" and N j :: nat
  assumes "even N" "2 \<le> N" "j < N"
  defines "X \<equiv> (\<lambda>k. \<Sum>l<N. of_real (x ! l) * cis (- (2 * pi * real k * real l / real N)))"
  shows "Re (X 0) + (\<Sum>k = 1..<N div 2. 2 * Re (X k * cis (2 * pi * real k * real j / real N)))
           + Re (X (N div 2)) * (- 1) ^ j = real N * x ! j"
proof -
  define h where "h = N div 2"
  have N: "N = 2 * h" using assms(1) by (auto simp: h_def)
  let ?d = "\<lambda>l. real_of_int (int j - int l)"
  have r0: "Re (X 0) = (\<Sum>l<N. x ! l * 1)"
    unfolding X_def by simp
  have rk: "Re (X k * cis (2 * pi * real k * real j / real N))
              = (\<Sum>l<N. x ! l * cos (real k * (2 * pi * ?d l / real N)))" for k
    unfolding X_def by (rule Re_bin_times_cis)
  have cj: "cis (2 * pi * real h * real j / real N) = (- 1) ^ j"
  proof -
    have "2 * pi * real h * real j / real N = real j * pi"
      using N assms(2) by (simp add: field_simps)
    then show ?thesis by (simp add: complex_eq_iff)
  qed
  have "Re (X h) * (- 1) ^ j = Re (X h * cis (2 * pi * real h * real j / real N))"
    unfolding cj by (simp add: complex_eq_iff)
  also have "\<dots> = (\<Sum>l<N. x ! l * cos (real h * (2 * pi * ?d l / real N)))"
    by (rule rk)
  also have "\<dots> = (\<Sum>l<N. x ! l * cos (pi * ?d l))"
  proof (rule sum.cong [OF refl])
    fix l
    have "real h * (2 * pi * ?d l / real N) = pi * ?d l"
      using N assms(2) by (simp add: field_simps)
    then show "x ! l * cos (real h * (2 * pi * ?d l / real N)) = x ! l * cos (pi * ?d l)"
      by simp
  qed
  finally have rh: "Re (X h) * (- 1) ^ j = (\<Sum>l<N. x ! l * cos (pi * ?d l))" .
  have "Re (X 0) + (\<Sum>k = 1..<h. 2 * Re (X k * cis (2 * pi * real k * real j / real N)))
           + Re (X h) * (- 1) ^ j
        = (\<Sum>l<N. x ! l * (1 + (\<Sum>k = 1..<h. 2 * cos (real k * (2 * pi * ?d l / real N)))
                              + cos (pi * ?d l)))"
    unfolding r0 rk rh by (rule sum_kernel_swap)
  also have "\<dots> = (\<Sum>l<N. x ! l * (if l = j then real N else 0))"
    by (rule sum.cong [OF refl]) (use kernel [OF assms(1,2,3)] in \<open>simp add: h_def\<close>)
  also have "\<dots> = (\<Sum>l<N. if l = j then x ! l * real N else 0)"
    by (rule sum.cong [OF refl]) auto
  also have "\<dots> = real N * x ! j"
    using assms(3) by (simp add: sum.delta)
  finally show ?thesis unfolding h_def .
qed


lemma map2_map_map: "map2 f (map g xs) (map h xs) = map (\<lambda>x. f (g x) (h x)) xs"
  by (induction xs) auto

lemma polar_recombine:
  "map2 (\<lambda>m p. of_real m * cis p) (map cmod X) (map Arg X) = X"
proof -
  have "of_real (cmod z) * cis (Arg z) = z" for z
    using rcis_cmod_Arg [of z] by (simp add: rcis_def)
  then show ?thesis by (simp add: map2_map_map)
qed

lemma irfft_rfft:
  assumes "even (length x)" "2 \<le> length x"
  shows "\<exists>X. np_rfft x = Inr X \<and> length X = length x div 2 + 1 \<and> np_irfft X = Inr x"
proof -
  define N where "N = length x"
  define h where "h = N div 2"
  define B where "B = (\<lambda>k. \<Sum>l<N. of_real (x ! l) * cis (- (2 * pi * real k * real l / real N)))"
  define X where "X = map B [0..<h + 1]"
  define F where "F = (\<lambda>j. (Re (X ! 0)
                  + (\<Sum>k = 1..<h. 2 * Re (X ! k * cis (2 * pi * real k * real j / real N)))
                  + Re (X ! h) * (- 1) ^ j) / real N)"
  have N: "N = 2 * h" "1 \<le> h" "0 < N" using assms by (auto simp: h_def N_def)
  have rf: "np_rfft x = Inr X"
    using N by (simp add: np_rfft_def dft_bin_def X_def B_def N_def [symmetric] h_def Let_def)
  have len: "length X = h + 1" by (simp add: X_def)
  have nth: "X ! k = B k" if "k \<le> h" for k
    using that unfolding X_def by (simp add: nth_append less_Suc_eq_le del: upt_Suc)
  have sample: "F j = x ! j" if "j < N" for j
  proof -
    have "(\<Sum>k = 1..<h. 2 * Re (X ! k * cis (2 * pi * real k * real j / real N)))
            = (\<Sum>k = 1..<h. 2 * Re (B k * cis (2 * pi * real k * real j / real N)))"
      by (rule sum.cong [OF refl]) (simp add: nth)
    moreover have "Re (B 0) + (\<Sum>k = 1..<h. 2 * Re (B k * cis (2 * pi * real k * real j / real N)))
                     + Re (B h) * (- 1) ^ j = real N * x ! j"
      unfolding B_def h_def by (rule irfft_rfft_sample) (use assms that in \<open>auto simp: N_def\<close>)
    ultimately show ?thesis
      unfolding F_def using N(3) by (simp add: nth)
  qed
  have "np_irfft X = Inr (map F [0..<N])"
    unfolding F_def using N by (simp add: np_irfft_def c2r_sample_def len Let_def)
  also have "map F [0..<N] = x"
    by (rule nth_equalityI) (simp_all add: N_def [symmetric] sample)
  finally show ?thesis using rf len unfolding h_def N_def by blast
qed

lemma synthesize_analyze:
  assumes "even (length frame)" "2 \<le> length frame"
  shows "\<exists>spectrum. analyze frame = Inr spectrum \<and> synthesize spectrum = Inr frame"
proof -
  obtain X where "np_rfft frame = Inr X" "np_irfft X = Inr frame"
    using irfft_rfft [OF assms] by blast
  then show ?thesis
    by (simp add: analyze_def synthesize_def polar_recombine)
qed

lemma roundtrip_even: "even (length F) \<Longrightarrow> 2 \<le> length F \<Longrightarrow> roundtrip F = Inr F"
  using synthesize_analyze [of F] by (auto simp: roundtrip_def)

lemma cos_240: "cos (4 * pi / 3) = - 1 / 2"
proof -
  have "cos (4 * pi / 3) = cos (pi / 3 + pi)" by (simp add: field_simps)
  also have "\<dots> = - cos (pi / 3)" by (rule cos_periodic_pi)
  finally show ?thesis by (simp add: cos_60)
qed

lemma roundtrip_via_bins:
  "np_rfft frame = Inr X \<Longrightarrow> roundtrip frame = np_irfft X"
  by (simp add: roundtrip_def analyze_def synthesize_def polar_recombine)

lemma roundtrip_three_samples: "roundtrip [1, 2, 3] = Inr [9 / 4, 15 / 4]"
proof -
  define z where "z = 1 + 2 * cis (- (2 * pi / 3)) + 3 * cis (- (4 * pi / 3))"
  have r: "np_rfft [1, 2, 3] = Inr [6, z]"
    by (simp add: np_rfft_def dft_bin_def Let_def lessThan_Suc numeral_3_eq_3 upt_rec z_def)
  have z: "Re z = - 3 / 2"
    by (simp add: z_def cos_120 cos_240)
  have "np_irfft [6, z] = Inr [9 / 4, 15 / 4]"
    by (simp add: np_irfft_def c2r_sample_def Let_def upt_rec z)
  then show ?thesis
    using roundtrip_via_bins [OF r] by simp
qed

section \<open>Parameter validation\<close>

lemma pad_negative: "fs < 0 \<Longrightarrow> np_pad_reflect x fs = Inl ValueError"
  by (simp add: np_pad_reflect_def)

lemma process_channel_negative_frame_size:
  "fs < 0 \<Longrightarrow> process_channel self x fs hop = Inl ValueError"
  by (simp add: process_channel_def accumulate_channel_def pad_negative)

lemma pad_12: "np_pad_reflect [1, 2] 4 = Inr [1, 2, 1, 2, 1, 2, 1, 2, 1, 2]"
  by (simp add: np_pad_reflect_def reflect_index_def upt_rec)

text \<open>
  Claim C3 as stated fails. The constructor accepts negative parameters, and a run with a
  negative hop length is not rejected either: no frame is visited and the run returns
  silence. A negative frame size is rejected only inside the run, by the padding.
\<close>

theorem invalid_parameters_accepted_counterexample:
  "AudioUpscaler_init (- 1) (- 1) (- 1) (- 1) False None = Inr negative_upscaler
   \<and> process_audio negative_upscaler (Mono [1, 2]) 4 (- 2) = Inr (Mono [0, 0], negative_upscaler)
   \<and> process_audio negative_upscaler (Mono [1, 2]) (- 4) 2 = Inl ValueError"
  by (simp add: AudioUpscaler_init_def negative_upscaler_def process_audio_def process_channel_def
      accumulate_channel_def pad_12 total_frames_def frame_offsets_def py_range_def py_floordiv_def
      py_slice_def py_bound_def normalize_level_def pad_negative)

text \<open>
  Claim C3, amended. The constructor never fails, whatever its arguments. A run with a
  negative frame size is rejected by the padding of the (first) channel, which comes
  before the frame loop: the run fails with \<open>ValueError\<close>.
\<close>

theorem no_validation_at_construction:
  "AudioUpscaler_init i hb nr db ce chain \<noteq> Inl e
   \<and> (frame_size < 0 \<longrightarrow>
        np_pad_reflect channel frame_size = Inl ValueError
        \<and> process_audio self (Mono channel) frame_size hop_length = Inl ValueError
        \<and> process_audio self (Stereo rows) frame_size hop_length = Inl ValueError)"
  by (simp add: AudioUpscaler_init_def process_audio_def process_channel_negative_frame_size
      pad_negative)

theorem no_validation_at_construction_witness:
  "AudioUpscaler_init 1 0 0 1 False None \<noteq> Inl ValueError
   \<and> (- 2048 :: int) < 0
   \<and> np_pad_reflect [1, 2] (- 2048) = Inl ValueError
   \<and> process_audio noop_upscaler (Mono [1, 2]) (- 2048) 1024 = Inl ValueError
   \<and> process_audio noop_upscaler (Stereo [(1, 2)]) (- 2048) 1024 = Inl ValueError"
  using no_validation_at_construction
    [of 1 0 0 1 False None ValueError "- 2048" "[1, 2]" noop_upscaler 1024 "[(1, 2)]"]
  by simp

section \<open>Level normalisation\<close>

lemma Max_abs_scale:
  assumes "acc \<noteq> []" "0 < c"
  shows "Max (set (map abs (map (\<lambda>s. s * c) acc))) = Max (set (map abs acc)) * (c::real)"
proof -
  have "set (map abs (map (\<lambda>s. s * c) acc)) = (\<lambda>a. a * c) ` set (map abs acc)"
    using assms(2) by (auto simp: abs_mult image_iff)
  moreover have "mono (\<lambda>a::real. a * c)"
    using assms(2) by (auto intro!: monoI mult_right_mono)
  ultimately show ?thesis
    using mono_Max_commute [of "\<lambda>a. a * c" "set (map abs acc)"] assms(1) by simp
qed

lemma normalize_level_peak:
  assumes "acc \<noteq> []" "0 < Max (set (map abs acc))"
  shows "\<exists>out. normalize_level acc = Inr out
           \<and> out = map (\<lambda>s. s * (0.95 / Max (set (map abs acc)))) acc
           \<and> Max (set (map abs out)) = 0.95"
proof -
  define M where "M = Max (set (map abs acc))"
  define c where "c = 0.95 / M"
  have c: "0 < c" "M * c = 0.95" using assms(2) by (simp_all add: c_def M_def)
  have "Max (set (map abs (map (\<lambda>s. s * c) acc))) = M * c"
    unfolding M_def by (rule Max_abs_scale) (use assms c in auto)
  moreover have "normalize_level acc = Inr (map (\<lambda>s. s * c) acc)"
    using assms unfolding normalize_level_def c_def M_def Let_def by (simp only: if_False if_True)
  ultimately show ?thesis
    unfolding c(2) unfolding c_def M_def by blast
qed

section \<open>Transforms of constant frames of four samples\<close>

lemma hann_4: "hann 4 = [0, 3 / 4, 3 / 4, 0]"
proof -
  have a: "cos (2 * pi / 3 - pi) = 1 / 2"
  proof -
    have "cos (2 * pi / 3 - pi) = cos (- (pi / 3))" by (simp add: field_simps)
    then show ?thesis by (simp add: cos_60)
  qed
  have b: "cos (4 * pi / 3 - pi) = 1 / 2"
  proof -
    have "cos (4 * pi / 3 - pi) = cos (pi / 3)" by (simp add: field_simps)
    then show ?thesis by (simp add: cos_60)
  qed
  show ?thesis
    by (simp add: hann_def np_linspace_def upt_rec a b cos_60)
qed

lemma Arg_of_real_pos: "0 < x \<Longrightarrow> Arg (of_real x) = 0"
  by (rule cis_Arg_unique) (simp_all add: sgn_of_real)

lemma sum_lessThan_4:
  fixes f :: "nat \<Rightarrow> complex"
  shows "(\<Sum>j<4. f j) = f 0 + f 1 + f 2 + f 3"
  by (simp add: eval_nat_numeral lessThan_Suc)

lemma rfft_const4: "np_rfft [c, c, c, c] = Inr [of_real (4 * c), 0, 0]"
proof -
  have h: "cis (- (pi / 2)) = - \<i>" "cis (- pi) = - 1" "cis (- (3 * pi / 2)) = \<i>"
          "cis (- (2 * pi)) = 1" "cis (- (3 * pi)) = - 1"
          "cis (- (pi * 3 / 2)) = \<i>" "cis (- (pi * 2)) = 1" "cis (- (pi * 3)) = - 1"
    using cos_3over2_pi sin_3over2_pi by (simp_all add: complex_eq_iff mult.commute)
  have u: "[0..<3] = [0, 1, 2]" by (simp add: upt_rec)
  have "np_rfft [c, c, c, c] = Inr [dft_bin [c, c, c, c] 0, dft_bin [c, c, c, c] 1, dft_bin [c, c, c, c] 2]"
    by (simp add: np_rfft_def Let_def) (simp add: numeral_2_eq_2)
  moreover have "dft_bin [c, c, c, c] 0 = of_real (4 * c)" "dft_bin [c, c, c, c] 1 = 0" "dft_bin [c, c, c, c] 2 = 0"
    unfolding dft_bin_def by (simp_all add: sum_lessThan_4 h)
  ultimately show ?thesis by simp
qed

lemma analyze_const4: "0 < c \<Longrightarrow> analyze [c, c, c, c] = Inr ([4 * c, 0, 0], [0, 0, 0])"
  by (simp add: analyze_def rfft_const4 Arg_of_real_pos Arg_zero del: of_real_mult)

lemma synthesize_dc4:
  "synthesize ([m, 0, 0], [p, q, r]) = Inr [m * cos p / 4, m * cos p / 4, m * cos p / 4, m * cos p / 4]"
  by (simp add: synthesize_def np_irfft_def c2r_sample_def Let_def upt_rec)

section \<open>The frame loop on well-formed offsets\<close>

lemma length_np_linspace: "length (np_linspace a b n) = n"
  by (simp add: np_linspace_def)

lemma length_hann: "length (hann M) = M"
  by (simp add: hann_def length_np_linspace)

lemma length_py_slice_frame:
  assumes "0 \<le> i" "0 \<le> fs" "i + fs \<le> int (length xs)"
  shows "length (py_slice xs i (i + fs)) = nat fs"
  using assms by (auto simp: py_slice_def py_bound_def min_def; linarith)

lemma py_range_bounds:
  assumes "py_range 0 stop step = Inr offs" "0 < step" "i \<in> set offs"
  shows "0 \<le> i \<and> i < stop"
proof -
  from assms obtain k where k: "i = int k * step" "k < nat ((stop + step - 1) div step)"
    by (auto simp: py_range_def)
  then have "int k < (stop + step - 1) div step" by linarith
  then have "int k + 1 \<le> (stop + step - 1) div step" by simp
  then have "(int k + 1) * step \<le> ((stop + step - 1) div step) * step"
    using assms(2) by (intro mult_right_mono) auto
  also have "\<dots> \<le> stop + step - 1"
  proof -
    have "(stop + step - 1) = ((stop + step - 1) div step) * step + (stop + step - 1) mod step"
      by simp
    moreover have "0 \<le> (stop + step - 1) mod step" using assms(2) by simp
    ultimately show ?thesis by linarith
  qed
  finally have "(int k + 1) * step \<le> stop + step - 1" .
  then show ?thesis using k assms(2) by (simp add: algebra_simps)
qed


lemma add_into_length:
  assumes "0 \<le> i" "0 \<le> fs" "i + fs \<le> int (length enh)" "length w = nat fs"
  shows "\<exists>enh'. add_into enh i fs w = Inr enh' \<and> length enh' = length enh"
proof -
  have t: "length (py_slice enh i (i + fs)) = nat fs"
    by (rule length_py_slice_frame [OF assms(1,2,3)])
  have lo: "py_bound (length enh) i = nat i"
    using assms by (auto simp: py_bound_def)
  have "nat i + nat fs \<le> length enh" using assms by linarith
  then show ?thesis
    using assms(4) by (simp add: add_into_def Let_def t lo)
qed

lemma np_mul_same_length:
  "length xs = length ys \<Longrightarrow> \<exists>w. np_mul xs ys = Inr w \<and> length w = length xs"
  by (simp add: np_mul_def)

lemma length_np_pad_reflect:
  assumes "x \<noteq> []" "0 \<le> p"
  shows "\<exists>padded. np_pad_reflect x p = Inr padded \<and> length padded = length x + 2 * nat p"
  using assms by (simp add: np_pad_reflect_def)

lemma length_unpad:
  assumes "0 < fs" "length enh = n + 2 * nat fs"
  shows "length (py_slice enh fs (- fs)) = n"
  using assms by (auto simp: py_slice_def py_bound_def min_def max_def; linarith)

section \<open>The no-op configuration\<close>

lemma builtin_stages_noop: "builtin_stages noop_upscaler mags = mags"
  by (simp add: builtin_stages_def noop_upscaler_def clarity_stage_def dynamic_range_stage_def
        intensity_stage_def harmonic_boost_stage_def noise_floor_stage_def)

lemma process_frame_noop:
  assumes "even (length frame)" "2 \<le> length frame"
  shows "process_frame noop_upscaler frame = Inr (frame, noop_upscaler)"
proof -
  obtain spectrum where "analyze frame = Inr spectrum" "synthesize spectrum = Inr frame"
    using synthesize_analyze [OF assms] by blast
  then show ?thesis
    by (cases spectrum) (simp add: process_frame_def builtin_stages_noop, simp add: noop_upscaler_def)
qed

lemma pad_const2: "np_pad_reflect [c, c] 4 = Inr [c, c, c, c, c, c, c, c, c, c]"
  by (simp add: np_pad_reflect_def reflect_index_def upt_rec)

lemma offsets_10: "frame_offsets 10 4 2 = Inr [0, 2, 4]" "total_frames 10 4 2 = Inr 4"
  by (simp_all add: frame_offsets_def py_range_def total_frames_def py_floordiv_def upt_rec)

lemma slice4:
  "py_slice [a0, a1, a2, a3, a4, a5, a6, a7, a8, a9] 0 4 = [a0, a1, a2, a3]"
  "py_slice [a0, a1, a2, a3, a4, a5, a6, a7, a8, a9] 2 6 = [a2, a3, a4, a5]"
  "py_slice [a0, a1, a2, a3, a4, a5, a6, a7, a8, a9] 4 8 = [a4, a5, a6, a7]"
  "py_slice [a0, a1, a2, a3, a4, a5, a6, a7, a8, a9] 4 (- 4) = [a4, a5]"
  by (simp_all add: py_slice_def py_bound_def)

lemma add_into4:
  "add_into [a0, a1, a2, a3, a4, a5, a6, a7, a8, a9] 0 4 [w0, w1, w2, w3]
     = Inr [a0 + w0, a1 + w1, a2 + w2, a3 + w3, a4, a5, a6, a7, a8, a9]"
  "add_into [a0, a1, a2, a3, a4, a5, a6, a7, a8, a9] 2 4 [w0, w1, w2, w3]
     = Inr [a0, a1, a2 + w0, a3 + w1, a4 + w2, a5 + w3, a6, a7, a8, a9]"
  "add_into [a0, a1, a2, a3, a4, a5, a6, a7, a8, a9] 4 4 [w0, w1, w2, w3]
     = Inr [a0, a1, a2, a3, a4 + w0, a5 + w1, a6 + w2, a7 + w3, a8, a9]"
  by (simp_all add: add_into_def slice4 py_bound_def Let_def)

lemma window4: "np_mul [f0, f1, f2, f3] (hann 4) = Inr [0, f1 * (3 / 4), f2 * (3 / 4), 0]"
  by (simp add: np_mul_def hann_4)

lemma noop_accumulate_example:
  "accumulate_channel noop_upscaler [1 / 10, 1 / 10] 4 2 = Inr ([3 / 80, 3 / 80], noop_upscaler)"
proof -
  have f: "process_frame noop_upscaler [1 / 10, 1 / 10, 1 / 10, 1 / 10]
             = Inr ([1 / 10, 1 / 10, 1 / 10, 1 / 10], noop_upscaler)"
    by (rule process_frame_noop) simp_all
  show ?thesis
    by (simp add: accumulate_channel_def pad_const2 offsets_10 slice4 f window4 add_into4
          py_floordiv_def)
qed

lemma noop_run_example:
  "process_channel noop_upscaler [1 / 10, 1 / 10] 4 2 = Inr ([19 / 20, 19 / 20], noop_upscaler)"
  by (simp add: process_channel_def noop_accumulate_example normalize_level_def)

lemma overlap_weight_Nil: "overlap_weight [] fs t = 0"
  by (simp add: overlap_weight_def)

lemma overlap_weight_Cons:
  "overlap_weight (i # offs) fs t =
     (if i \<le> t \<and> t < i + fs then hann (nat fs) ! nat (t - i) else 0) + overlap_weight offs fs t"
  by (simp add: overlap_weight_def)

lemma reflect_index_inside:
  assumes "2 \<le> n" "t < n"
  shows "reflect_index n (int t) = t"
proof -
  have "t < 2 * (n - 1)" using assms by arith
  then have "int t < 2 * (int n - 1)" using assms(1) by (simp add: of_nat_diff)
  then have "int t mod (2 * (int n - 1)) = int t" by simp
  then show ?thesis using assms by (simp add: reflect_index_def Let_def)
qed

lemma pad_middle:
  assumes "x \<noteq> []" "0 \<le> p" "t < length x"
  shows "\<exists>padded. np_pad_reflect x p = Inr padded \<and> length padded = length x + 2 * nat p
           \<and> padded ! (nat p + t) = x ! t"
proof (cases "length x = 1")
  case True
  then have "t = 0" using assms(3) by simp
  moreover have "x ! 0 = hd x" using assms(1) by (simp add: hd_conv_nth)
  ultimately show ?thesis
    using assms True by (simp add: np_pad_reflect_def nth_append hd_conv_nth)
next
  case False
  moreover have "length x \<noteq> 0" using assms(1) by simp
  ultimately have n: "2 \<le> length x" by linarith
  have "int (nat p + t) - p = int t" using assms(2) by simp
  then show ?thesis
    using assms False reflect_index_inside [OF n assms(3)]
    by (simp add: np_pad_reflect_def)
qed

lemma py_slice_window:
  assumes "0 \<le> i" "0 \<le> fs" "i + fs \<le> int (length xs)"
  shows "py_slice xs i (i + fs) = take (nat fs) (drop (nat i) xs)"
proof -
  have "py_bound (length xs) i = nat i" "py_bound (length xs) (i + fs) = nat i + nat fs"
    using assms by (auto simp: py_bound_def min_def)
  then show ?thesis by (simp add: py_slice_def)
qed

lemma add_into_nth:
  assumes "0 \<le> i" "0 \<le> fs" "i + fs \<le> int (length enh)" "length w = nat fs"
  shows "add_into enh i fs w
           = Inr (map (\<lambda>t. enh ! t + (if i \<le> int t \<and> int t < i + fs
                                        then w ! nat (int t - i) else 0)) [0..<length enh])"
proof -
  define a where "a = nat i"
  define b where "b = nat fs"
  have ab: "a + b \<le> length enh" "i = int a" "fs = int b"
    using assms by (auto simp: a_def b_def)
  have t: "py_slice enh i (i + fs) = take b (drop a enh)"
    using py_slice_window [OF assms(1,2,3)] by (simp add: a_def b_def)
  have lo: "py_bound (length enh) i = a"
    using assms by (auto simp: py_bound_def a_def)
  have lt: "length (take b (drop a enh)) = b" using ab(1) by simp
  have r: "add_into enh i fs w
             = Inr (take a enh @ map2 (+) (take b (drop a enh)) w @ drop (a + b) enh)"
    using assms(4) lt by (simp add: add_into_def Let_def t lo b_def)
  have "take a enh @ map2 (+) (take b (drop a enh)) w @ drop (a + b) enh
          = map (\<lambda>t. enh ! t + (if i \<le> int t \<and> int t < i + fs
                                   then w ! nat (int t - i) else 0)) [0..<length enh]"
  proof (rule nth_equalityI)
    show "length (take a enh @ map2 (+) (take b (drop a enh)) w @ drop (a + b) enh)
            = length (map (\<lambda>t. enh ! t + (if i \<le> int t \<and> int t < i + fs
                                   then w ! nat (int t - i) else 0)) [0..<length enh])"
      using ab(1) assms(4) by (simp add: b_def)
  next
    fix t
    assume "t < length (take a enh @ map2 (+) (take b (drop a enh)) w @ drop (a + b) enh)"
    then have tl: "t < length enh" using ab(1) assms(4) by (simp add: b_def)
    have lw: "length w = b" using assms(4) by (simp add: b_def)
    consider "t < a" | "a \<le> t" "t < a + b" | "a + b \<le> t" by linarith
    then have "(take a enh @ map2 (+) (take b (drop a enh)) w @ drop (a + b) enh) ! t
                 = enh ! t + (if a \<le> t \<and> t < a + b then w ! (t - a) else 0)"
    proof cases
      case 1
      then show ?thesis using ab(1) by (simp add: nth_append)
    next
      case 2
      then have "t - a < b" by linarith
      then show ?thesis using 2 ab(1) lw by (simp add: nth_append)
    next
      case 3
      then have "\<not> t < a" "\<not> t - a < b" by linarith+
      moreover have "a + b + (t - a - b) = t" using 3 by linarith
      ultimately show ?thesis using 3 ab(1) lw tl by (simp add: nth_append)
    qed
    moreover have "(i \<le> int t \<and> int t < i + fs) = (a \<le> t \<and> t < a + b)"
      unfolding ab(2,3) by linarith
    moreover have "nat (int t - i) = t - a" unfolding ab(2) by simp
    ultimately show "(take a enh @ map2 (+) (take b (drop a enh)) w @ drop (a + b) enh) ! t
        = map (\<lambda>t. enh ! t + (if i \<le> int t \<and> int t < i + fs
                                   then w ! nat (int t - i) else 0)) [0..<length enh] ! t"
      using tl by simp
  qed
  then show ?thesis using r by simp
qed

lemma frame_loop_noop_weights:
  assumes "even (nat fs)" "2 \<le> fs"
    and "\<forall>i\<in>set offs. 0 \<le> i \<and> i + fs \<le> int (length padded)"
    and "length enh = length padded"
  shows "frame_loop padded fs offs (enh, noop_upscaler)
           = Inr (map (\<lambda>t. enh ! t + padded ! t * overlap_weight offs fs (int t))
                    [0..<length padded], noop_upscaler)"
  using assms(3,4)
proof (induction offs arbitrary: enh)
  case Nil
  have "map (\<lambda>t. enh ! t) [0..<length enh] = enh" by (rule map_nth)
  then show ?case using Nil by (simp add: overlap_weight_Nil)
next
  case (Cons i offs)
  have i: "0 \<le> i" "i + fs \<le> int (length padded)" using Cons.prems(1) by auto
  have fs: "0 \<le> fs" using assms(2) by simp
  define frame where "frame = py_slice padded i (i + fs)"
  have fr: "frame = take (nat fs) (drop (nat i) padded)"
    unfolding frame_def by (rule py_slice_window [OF i(1) fs i(2)])
  have len: "length frame = nat fs"
    unfolding frame_def by (rule length_py_slice_frame [OF i(1) fs i(2)])
  have pf: "process_frame noop_upscaler frame = Inr (frame, noop_upscaler)"
    by (rule process_frame_noop) (use len assms(1,2) in auto)
  define w where "w = map2 (*) frame (hann (nat fs))"
  have w: "np_mul frame (hann (nat fs)) = Inr w" "length w = nat fs"
    using len by (simp_all add: np_mul_def w_def length_hann)
  define enh1 where
    "enh1 = map (\<lambda>t. enh ! t + (if i \<le> int t \<and> int t < i + fs
                                  then w ! nat (int t - i) else 0)) [0..<length enh]"
  have e1: "add_into enh i fs w = Inr enh1"
    unfolding enh1_def
    by (rule add_into_nth [OF i(1) fs _ w(2)]) (use i(2) Cons.prems(2) in simp)
  have l1: "length enh1 = length padded" using Cons.prems(2) by (simp add: enh1_def)
  have ih: "frame_loop padded fs offs (enh1, noop_upscaler)
              = Inr (map (\<lambda>t. enh1 ! t + padded ! t * overlap_weight offs fs (int t))
                       [0..<length padded], noop_upscaler)"
    by (rule Cons.IH) (use Cons.prems l1 in auto)
  have eq: "enh1 ! t + padded ! t * overlap_weight offs fs (int t)
              = enh ! t + padded ! t * overlap_weight (i # offs) fs (int t)"
    if t: "t < length padded" for t
  proof (cases "i \<le> int t \<and> int t < i + fs")
    case True
    define k where "k = nat (int t - i)"
    have k: "k < nat fs" "nat i + k = t" using True i(1) by (auto simp: k_def)
    have "w ! k = frame ! k * hann (nat fs) ! k"
      using k(1) len by (simp add: w_def length_hann)
    also have "frame ! k = padded ! t"
      using k t by (simp add: fr)
    finally have "w ! k = padded ! t * hann (nat fs) ! k" .
    then show ?thesis
      using True t Cons.prems(2)
      by (simp add: enh1_def overlap_weight_Cons k_def algebra_simps)
  next
    case False
    then show ?thesis
      using t Cons.prems(2) by (auto simp: enh1_def overlap_weight_Cons)
  qed
  have "map (\<lambda>t. enh1 ! t + padded ! t * overlap_weight offs fs (int t)) [0..<length padded]
          = map (\<lambda>t. enh ! t + padded ! t * overlap_weight (i # offs) fs (int t))
              [0..<length padded]"
    using eq by simp
  then show ?case
    using pf w(1) e1 ih by (simp add: frame_def [symmetric])
qed

lemma normalize_level_gain:
  assumes "acc \<noteq> []"
  shows "normalize_level acc = Inr (map (\<lambda>s. s * level_gain acc) acc)"
  using assms by (simp add: normalize_level_def level_gain_def Let_def)

lemma process_channel_noop_weights:
  assumes "x \<noteq> []" "even fs" "2 \<le> fs" "0 < hop" "hop \<le> fs"
  shows "\<exists>offs acc. frame_offsets (int (length x) + 2 * fs) fs hop = Inr offs
           \<and> acc = map (\<lambda>t. x ! t * overlap_weight offs fs (fs + int t) / of_int (fs div hop))
                     [0..<length x]
           \<and> accumulate_channel noop_upscaler x fs hop = Inr (acc, noop_upscaler)
           \<and> process_channel noop_upscaler x fs hop
               = Inr (map (\<lambda>s. s * level_gain acc) acc, noop_upscaler)"
proof -
  have fs0: "0 \<le> fs" using assms(3) by simp
  obtain padded where p: "np_pad_reflect x fs = Inr padded" "length padded = length x + 2 * nat fs"
    using length_np_pad_reflect [of x fs] assms by auto
  have mid: "padded ! (nat fs + t) = x ! t" if "t < length x" for t
    using pad_middle [OF assms(1) fs0 that] p(1) by auto
  define L where "L = int (length padded)"
  have L: "L = int (length x) + 2 * fs" using p(2) fs0 by (simp add: L_def)
  obtain offs where o: "frame_offsets L fs hop = Inr offs"
    using assms(4) by (auto simp: frame_offsets_def py_range_def)
  have ob: "\<forall>i\<in>set offs. 0 \<le> i \<and> i + fs \<le> int (length padded)"
    using py_range_bounds [OF o [unfolded frame_offsets_def] assms(4)] by (fastforce simp: L_def)
  have tf: "total_frames L fs hop = Inr (1 + (L - fs) div hop)"
    using assms(4) by (simp add: total_frames_def py_floordiv_def)
  have ev: "even (nat fs)" using assms(2,3) by (simp add: even_nat_iff)
  define enh where
    "enh = map (\<lambda>t. replicate (length padded) (0::real) ! t
                  + padded ! t * overlap_weight offs fs (int t)) [0..<length padded]"
  have e: "frame_loop padded fs offs (replicate (length padded) 0, noop_upscaler)
             = Inr (enh, noop_upscaler)"
    unfolding enh_def by (rule frame_loop_noop_weights [OF ev assms(3) ob]) simp
  have le: "length enh = length padded" by (simp add: enh_def)
  have "0 < fs div hop"
    using assms(4,5) by (simp add: pos_imp_zdiv_pos_iff)
  then have no: "py_floordiv fs hop = Inr (fs div hop)" "fs div hop \<noteq> 0"
    using assms(4) by (auto simp: py_floordiv_def)
  define unp where "unp = py_slice enh fs (- fs)"
  have b: "py_bound (length enh) fs = nat fs"
    "py_bound (length enh) (- fs) = nat fs + length x"
    using le p(2) assms(3) by (auto simp: py_bound_def min_def max_def)
  have unp: "unp = take (length x) (drop (nat fs) enh)"
    by (simp add: unp_def py_slice_def b)
  define acc where
    "acc = map (\<lambda>t. x ! t * overlap_weight offs fs (fs + int t) / of_int (fs div hop))
             [0..<length x]"
  have "map (\<lambda>s. s / of_int (fs div hop)) unp = acc"
  proof (rule nth_equalityI)
    show "length (map (\<lambda>s. s / of_int (fs div hop)) unp) = length acc"
      using le p(2) by (simp add: unp acc_def)
  next
    fix t
    assume "t < length (map (\<lambda>s. s / of_int (fs div hop)) unp)"
    then have t: "t < length x" using le p(2) by (simp add: unp)
    then have tp: "nat fs + t < length padded" using p(2) by simp
    have "unp ! t = enh ! (nat fs + t)" using t le p(2) by (simp add: unp)
    also have "\<dots> = padded ! (nat fs + t) * overlap_weight offs fs (int (nat fs + t))"
      using tp by (simp add: enh_def)
    also have "\<dots> = x ! t * overlap_weight offs fs (fs + int t)"
      using mid [OF t] fs0 by simp
    finally show "map (\<lambda>s. s / of_int (fs div hop)) unp ! t = acc ! t"
      using t le p(2) by (simp add: unp acc_def)
  qed
  then have a: "accumulate_channel noop_upscaler x fs hop = Inr (acc, noop_upscaler)"
    using p(1) o tf e no by (simp add: accumulate_channel_def L_def unp_def Let_def)
  have "acc \<noteq> []" using assms(1) by (simp add: acc_def)
  then have "process_channel noop_upscaler x fs hop
               = Inr (map (\<lambda>s. s * level_gain acc) acc, noop_upscaler)"
    using a normalize_level_gain [of acc] by (simp add: process_channel_def)
  then show ?thesis
    using o a unfolding L acc_def by blast
qed

lemma noop_run_full_hop:
  "process_channel noop_upscaler [1 / 10, 1 / 10, 1 / 10, 1 / 10] 4 4
     = Inr ([0, 19 / 20, 19 / 20, 0], noop_upscaler)"
proof -
  define x :: "real list" where "x = [1 / 10, 1 / 10, 1 / 10, 1 / 10]"
  have "\<exists>offs acc. frame_offsets (int (length x) + 2 * 4) 4 4 = Inr offs
     \<and> acc = map (\<lambda>t. x ! t * overlap_weight offs 4 (4 + int t) / of_int (4 div 4))
               [0..<length x]
     \<and> accumulate_channel noop_upscaler x 4 4 = Inr (acc, noop_upscaler)
     \<and> process_channel noop_upscaler x 4 4
         = Inr (map (\<lambda>s. s * level_gain acc) acc, noop_upscaler)"
    by (rule process_channel_noop_weights) (simp_all add: x_def)
  then obtain offs acc where
    o: "frame_offsets (int (length x) + 2 * 4) 4 4 = Inr offs"
    and a: "acc = map (\<lambda>t. x ! t * overlap_weight offs 4 (4 + int t) / of_int (4 div 4))
                    [0..<length x]"
    and p: "process_channel noop_upscaler x 4 4
              = Inr (map (\<lambda>s. s * level_gain acc) acc, noop_upscaler)"
    by (elim exE conjE)
  have offs: "offs = [0, 4]"
    using o by (simp add: x_def frame_offsets_def py_range_def upt_rec)
  have acc: "acc = [0, 3 / 40, 3 / 40, 0]"
    using a unfolding offs by (simp add: x_def overlap_weight_def hann_4 upt_rec)
  show ?thesis
    using p unfolding acc by (simp add: x_def level_gain_def)
qed

text \<open>
  Claim C2 as stated fails in its second half. With the no-op configuration, frame size 4
  and hop length 2, the channel \<open>[0.1, 0.1]\<close> comes back with the right length but as
  \<open>[0.95, 0.95]\<close>: the level normalisation rescales every non-silent channel. With hop
  length 4 the channel \<open>[0.1, 0.1, 0.1, 0.1]\<close> comes back as \<open>[0, 0.95, 0.95, 0]\<close>: the
  window weights of the overlap-add are not the same for every sample either.
\<close>

theorem noop_output_not_close_counterexample:
  "process_channel noop_upscaler [1 / 10, 1 / 10] 4 2 = Inr ([19 / 20, 19 / 20], noop_upscaler)
   \<and> process_channel noop_upscaler [1 / 10, 1 / 10, 1 / 10, 1 / 10] 4 4
       = Inr ([0, 19 / 20, 19 / 20, 0], noop_upscaler)"
  using noop_run_example noop_run_full_hop by simp

text \<open>
  Claim C2, amended. For a non-empty channel \<open>x\<close>, the no-op configuration, an even frame
  size of at least 2 and a hop length between 1 and the frame size, the channel pipeline
  returns, with the upscaler unchanged, an output of the length of the input in which
  sample \<open>t\<close> is the input sample \<open>x[t]\<close> times the overlap weight of the padded index
  \<open>frame_size + t\<close>, divided by \<open>frame_size // hop_length\<close>, times the gain of the level
  normalisation. The equalities are exact over the real numbers; the code's floats follow
  them up to rounding.
\<close>

theorem noop_channel_scales_input:
  "x \<noteq> [] \<Longrightarrow> even fs \<Longrightarrow> 2 \<le> fs \<Longrightarrow> 0 < hop \<Longrightarrow> hop \<le> fs \<Longrightarrow>
   \<exists>offs acc. frame_offsets (int (length x) + 2 * fs) fs hop = Inr offs
     \<and> acc = map (\<lambda>t. x ! t * overlap_weight offs fs (fs + int t) / of_int (fs div hop))
               [0..<length x]
     \<and> accumulate_channel noop_upscaler x fs hop = Inr (acc, noop_upscaler)
     \<and> process_channel noop_upscaler x fs hop
         = Inr (map (\<lambda>s. s * level_gain acc) acc, noop_upscaler)"
  by (rule process_channel_noop_weights)

theorem noop_channel_scales_input_witness:
  "[1 / 10, 1 / 10 :: real] \<noteq> [] \<and> even (4 :: int) \<and> (2 :: int) \<le> 4 \<and> (0 :: int) < 2
   \<and> (2 :: int) \<le> 4
   \<and> frame_offsets (int (length [1 / 10, 1 / 10 :: real]) + 2 * 4) 4 2 = Inr [0, 2, 4]
   \<and> map (\<lambda>t. [1 / 10, 1 / 10] ! t * overlap_weight [0, 2, 4] 4 (4 + int t) / of_int (4 div 2))
        [0..<length [1 / 10, 1 / 10 :: real]] = [3 / 80, 3 / 80]
   \<and> accumulate_channel noop_upscaler [1 / 10, 1 / 10] 4 2 = Inr ([3 / 80, 3 / 80], noop_upscaler)
   \<and> level_gain [3 / 80, 3 / 80] = 76 / 3
   \<and> process_channel noop_upscaler [1 / 10, 1 / 10] 4 2
       = Inr (map (\<lambda>s. s * level_gain [3 / 80, 3 / 80]) [3 / 80, 3 / 80], noop_upscaler)"
proof -
  define x :: "real list" where "x = [1 / 10, 1 / 10]"
  have h: "x \<noteq> []" "even (4 :: int)" "(2 :: int) \<le> 4" "(0 :: int) < 2" "(2 :: int) \<le> 4"
    by (simp_all add: x_def)
  from noop_channel_scales_input [OF h] obtain offs acc where
    o: "frame_offsets (int (length x) + 2 * 4) 4 2 = Inr offs"
    and a: "acc = map (\<lambda>t. x ! t * overlap_weight offs 4 (4 + int t) / of_int (4 div 2))
                    [0..<length x]"
    and c: "accumulate_channel noop_upscaler x 4 2 = Inr (acc, noop_upscaler)"
    and p: "process_channel noop_upscaler x 4 2
              = Inr (map (\<lambda>s. s * level_gain acc) acc, noop_upscaler)"
    by (elim exE conjE)
  have offs: "offs = [0, 2, 4]"
    using o by (simp add: x_def frame_offsets_def py_range_def upt_rec)
  have acc: "acc = [3 / 80, 3 / 80]"
    using a unfolding offs by (simp add: x_def overlap_weight_def hann_4 upt_rec)
  have g: "level_gain [3 / 80, 3 / 80] = 76 / 3"
    by (simp add: level_gain_def)
  have a': "map (\<lambda>t. x ! t * overlap_weight [0, 2, 4] 4 (4 + int t) / of_int (4 div 2))
              [0..<length x] = [3 / 80, 3 / 80]"
    using a unfolding offs acc by simp
  show ?thesis
    using h o [unfolded offs] a' c [unfolded acc] p [unfolded acc] g
    unfolding x_def by (intro conjI)
qed

text \<open>
  Claim C6. When the channel accumulated by \<open>_process_channel\<close> (after the division by the
  overlap count and the removal of the padding) has a maximum absolute sample above zero,
  the pipeline returns that channel scaled by \<open>0.95 / max\<close>, and the maximum absolute
  sample of the result is 0.95 (over the real numbers, exactly).
\<close>

theorem peak_normalised_to_095:
  "accumulate_channel self x fs hop = Inr (acc, self') \<Longrightarrow> acc \<noteq> [] \<Longrightarrow>
   0 < Max (set (map abs acc)) \<Longrightarrow>
   \<exists>out. process_channel self x fs hop = Inr (out, self')
         \<and> out = map (\<lambda>s. s * (0.95 / Max (set (map abs acc)))) acc
         \<and> Max (set (map abs out)) = 0.95"
  using normalize_level_peak [of acc] by (auto simp: process_channel_def)

theorem peak_normalised_to_095_witness:
  "accumulate_channel noop_upscaler [1 / 10, 1 / 10] 4 2 = Inr ([3 / 80, 3 / 80], noop_upscaler)
   \<and> [3 / 80, 3 / 80 :: real] \<noteq> []
   \<and> 0 < Max (set (map abs [3 / 80, 3 / 80 :: real]))
   \<and> (\<exists>out. process_channel noop_upscaler [1 / 10, 1 / 10] 4 2 = Inr (out, noop_upscaler)
         \<and> out = map (\<lambda>s. s * (0.95 / Max (set (map abs [3 / 80, 3 / 80])))) [3 / 80, 3 / 80]
         \<and> Max (set (map abs out)) = 0.95)"
proof -
  have a: "accumulate_channel noop_upscaler [1 / 10, 1 / 10] 4 2
             = Inr ([3 / 80, 3 / 80], noop_upscaler)"
    by (rule noop_accumulate_example)
  have b: "[3 / 80, 3 / 80 :: real] \<noteq> []" by simp
  have c: "0 < Max (set (map abs [3 / 80, 3 / 80 :: real]))" by simp
  from peak_normalised_to_095 [OF a b c] a b c show ?thesis by blast
qed

section \<open>Frames of odd length\<close>

lemma process_frame_noop_roundtrip:
  "process_frame noop_upscaler frame =
     (case roundtrip frame of Inl e \<Rightarrow> Inl e | Inr f \<Rightarrow> Inr (f, noop_upscaler))"
  by (simp add: process_frame_def roundtrip_def builtin_stages_noop split: sum.splits prod.splits)
     (simp add: noop_upscaler_def)

lemma pad_four_by_three:
  "np_pad_reflect [0, 3, 2, 1] 3 = Inr [1, 2, 3, 0, 3, 2, 1, 2, 3, 0]"
  by (simp add: np_pad_reflect_def reflect_index_def upt_rec)

lemma odd_frame_size_run:
  "process_channel noop_upscaler [0, 3, 2, 1] 3 1 = Inl ValueError"
proof -
  have o: "frame_offsets 10 3 1 = Inr [0, 1, 2, 3, 4, 5, 6]" "total_frames 10 3 1 = Inr 8"
    by (simp_all add: frame_offsets_def py_range_def total_frames_def py_floordiv_def upt_rec)
  have s: "py_slice [1, 2, 3, 0, 3, 2, 1, 2, 3, 0 :: real] 0 3 = [1, 2, 3]"
    by (simp add: py_slice_def py_bound_def)
  have f: "process_frame noop_upscaler [1, 2, 3] = Inr ([9 / 4, 15 / 4], noop_upscaler)"
    by (simp add: process_frame_noop_roundtrip roundtrip_three_samples)
  have m: "np_mul [9 / 4, 15 / 4] (hann 3) = Inl ValueError"
    by (simp add: np_mul_def length_hann)
  show ?thesis
    by (simp add: process_channel_def accumulate_channel_def pad_four_by_three o s f m)
qed

text \<open>
  Claim C5, evaluated on a frame of odd length. The inverse transform is called without a
  length, so the three samples \<open>[1, 2, 3]\<close> (two bins) come back as the two samples
  \<open>[2.25, 3.75]\<close>, also from \<open>_process_frame\<close> with the no-op configuration. The frame loop
  multiplies the returned frame by a window of \<open>frame_size\<close> samples: with frame size 3 the
  run of the channel \<open>[0, 3, 2, 1]\<close>, whose first padded frame is \<open>[1, 2, 3]\<close>, fails with
  \<open>ValueError\<close>. For frames of even length the round trip is exact over the real numbers
  (lemma \<open>roundtrip_even\<close>).
\<close>

theorem odd_frame_loses_sample:
  "roundtrip [1, 2, 3] = Inr [9 / 4, 15 / 4]
   \<and> process_frame noop_upscaler [1, 2, 3] = Inr ([9 / 4, 15 / 4], noop_upscaler)
   \<and> length (hann 3) = 3
   \<and> process_channel noop_upscaler [0, 3, 2, 1] 3 1 = Inl ValueError"
  using roundtrip_three_samples odd_frame_size_run
  by (simp add: process_frame_noop_roundtrip length_hann)

section \<open>Magnitudes stay non-negative\<close>

lemma nonneg_iff: "nonneg xs \<longleftrightarrow> (\<forall>x\<in>set xs. 0 \<le> x)"
  by (induction xs) auto

lemma nonneg_map2_mult:
  assumes "nonneg xs" "\<forall>y\<in>set ys. 0 \<le> y"
  shows "nonneg (map2 (*) xs ys)"
  using assms unfolding nonneg_iff
  by (auto intro!: mult_nonneg_nonneg dest: set_zip_leftD set_zip_rightD)

lemma nonneg_append: "nonneg (xs @ ys) \<longleftrightarrow> nonneg xs \<and> nonneg ys"
  by (auto simp: nonneg_iff)

lemma nonneg_take: "nonneg xs \<Longrightarrow> nonneg (take n xs)"
  by (auto simp: nonneg_iff dest: in_set_takeD)

lemma nonneg_drop: "nonneg xs \<Longrightarrow> nonneg (drop n xs)"
  by (auto simp: nonneg_iff dest: in_set_dropD)

lemma nonneg_noise_floor: "nonneg mags \<Longrightarrow> nonneg (noise_floor_stage nr mags)"
  by (auto simp: noise_floor_stage_def Let_def map2_mask nonneg_iff)

lemma linspace_curve_nonneg: "\<forall>c\<in>set (np_linspace 1.0 0.1 r). 0 \<le> c"
proof (cases "r = 1")
  case True then show ?thesis by (simp add: np_linspace_def)
next
  case False
  have "0 \<le> 1 + real i * ((0.1 - 1) / real (r - 1))" if "i < r" for i
  proof -
    define Y where "Y = real i / real (r - 1)"
    have Y: "Y \<le> 1" unfolding Y_def using that False by (simp add: divide_le_eq)
    have "1 + real i * ((0.1 - 1) / real (r - 1)) = 1 - 0.9 * Y"
      unfolding Y_def by simp
    also have "0 \<le> 1 - 0.9 * Y" using Y by simp
    finally show ?thesis by simp
  qed
  then show ?thesis using False by (auto simp: np_linspace_def)
qed

lemma nonneg_harmonic_boost:
  assumes "nonneg mags" "0 \<le> hb"
  shows "nonneg (harmonic_boost_stage hb mags)"
proof -
  have "\<forall>y\<in>set (map (\<lambda>c. 1.0 + c * hb) (np_linspace 1.0 0.1 r)). 0 \<le> y" for r
    using linspace_curve_nonneg [of r] assms(2) by (auto intro!: add_nonneg_nonneg mult_nonneg_nonneg)
  then show ?thesis
    using assms(1)
    by (auto simp: harmonic_boost_stage_def Let_def nonneg_append
          intro!: nonneg_map2_mult nonneg_take nonneg_drop)
qed

lemma nonneg_intensity: "nonneg mags \<Longrightarrow> 0 \<le> i \<Longrightarrow> nonneg (intensity_stage i mags)"
  by (auto simp: intensity_stage_def nonneg_iff)

lemma nonneg_dynamic_range: "nonneg mags \<Longrightarrow> nonneg (dynamic_range_stage db mags)"
  by (auto simp: dynamic_range_stage_def nonneg_iff Let_def)

lemma nonneg_map: "nonneg xs \<Longrightarrow> (\<And>x. 0 \<le> x \<Longrightarrow> 0 \<le> f x) \<Longrightarrow> nonneg (map f xs)"
  by (auto simp: nonneg_iff)

lemma nonneg_clarity: "nonneg mags \<Longrightarrow> nonneg (clarity_stage ce mags)"
  by (auto simp: clarity_stage_def Let_def nonneg_append nonneg_take nonneg_drop
        intro!: nonneg_map)

lemma nonneg_builtin_stages:
  "config_nonneg self \<Longrightarrow> nonneg mags \<Longrightarrow> nonneg (builtin_stages self mags)"
  by (simp add: builtin_stages_def config_nonneg_def nonneg_clarity nonneg_dynamic_range
        nonneg_intensity nonneg_harmonic_boost nonneg_noise_floor)

lemma hanning_range: "\<forall>w\<in>set (np_hanning M). 0 \<le> w \<and> w \<le> 1"
proof -
  have "0 \<le> 0.5 + 0.5 * cos t \<and> 0.5 + 0.5 * cos t \<le> 1" for t :: real
    using cos_ge_minus_one [of t] cos_le_one [of t] by linarith
  then show ?thesis by (auto simp: np_hanning_def simp del: cos_ge_minus_one cos_le_one)
qed

lemma float_tiny_less_one: "float_tiny < 1"
  by (simp add: float_tiny_def)

lemma py_pow_in_range:
  assumes "0 \<le> dc" "7 powr dc \<le> float_max" "2 \<le> h" "h \<le> 7"
  shows "py_pow h dc = Inr (real h powr dc)" and "1 \<le> real h powr dc"
proof -
  have "real h powr dc \<le> 7 powr dc"
    using assms(1,3,4) by (intro powr_mono2) auto
  then have le: "real h powr dc \<le> float_max" using assms(2) by linarith
  show ge: "1 \<le> real h powr dc"
    using assms(1,3) by (intro ge_one_powr_ge_zero) auto
  then have "\<not> real h powr dc \<le> float_tiny" using float_tiny_less_one by linarith
  then show "py_pow h dc = Inr (real h powr dc)"
    using le by (simp add: py_pow_def Let_def)
qed

lemma py_pow_nonneg: "py_pow h dc = Inr p \<Longrightarrow> 0 \<le> p"
  by (auto simp: py_pow_def Let_def split: if_splits)

lemma nonneg_boost_harmonic:
  assumes "nonneg enhanced" "0 \<le> hb" "boost_harmonic hb dc f enhanced h = Inr enhanced'"
  shows "nonneg enhanced'"
proof (cases "f * h < length enhanced")
  case False
  then show ?thesis using assms by (simp add: boost_harmonic_def Let_def)
next
  case True
  from assms(3) True obtain p q where
    pq: "py_pow h dc = Inr p" "py_reciprocal p = Inr q"
    by (auto simp: boost_harmonic_def Let_def split: sum.splits)
  define boost where "boost = hb * q"
  have "0 \<le> q"
    using py_pow_nonneg [OF pq(1)] pq(2) by (auto simp: py_reciprocal_def split: if_splits)
  then have b: "0 \<le> boost" using assms(2) by (simp add: boost_def)
  have "0 \<le> 1 + w * (boost - 1)" if "0 \<le> w" "w \<le> 1" for w
  proof -
    have "1 + w * (boost - 1) = (1 - w) + w * boost" by (simp add: algebra_simps)
    moreover have "0 \<le> w * boost" using that(1) b by simp
    ultimately show ?thesis using that(2) by linarith
  qed
  then have "\<forall>y\<in>set (map (\<lambda>w. 1 + w * (boost - 1)) (np_hanning M)). 0 \<le> y" for M
    using hanning_range [of M] by auto
  then show ?thesis
    using assms(1,3) True pq unfolding boost_harmonic_def Let_def boost_def [symmetric]
    by (auto simp: nonneg_append boost_def [symmetric]
          intro!: nonneg_map2_mult nonneg_take nonneg_drop)
qed

lemma nonneg_harmonic_loop:
  "nonneg enhanced \<Longrightarrow> 0 \<le> hb \<Longrightarrow> harmonic_loop hb dc f hs enhanced = Inr enhanced' \<Longrightarrow>
   nonneg enhanced'"
proof (induction hs arbitrary: enhanced)
  case Nil
  then show ?case by simp
next
  case (Cons h hs)
  from Cons.prems(3) obtain e1 where
    s: "boost_harmonic hb dc f enhanced h = Inr e1" "harmonic_loop hb dc f hs e1 = Inr enhanced'"
    by (auto split: sum.splits)
  have "nonneg e1" by (rule nonneg_boost_harmonic [OF Cons.prems(1,2) s(1)])
  then show ?case using Cons.IH [OF _ Cons.prems(2) s(2)] by simp
qed

lemma nonneg_harmonic_process:
  assumes "nonneg mags" "0 \<le> hb" "harmonic_process hb dc mags phases = Inr (m', p')"
  shows "nonneg m'"
proof -
  define hs :: "nat list" where "hs = [2..<8]"
  define f where "f = np_argmax (take (min (length mags div 5) 100) mags)"
  from assms(3) have "m' = mags \<or> harmonic_loop hb dc f hs mags = Inr m'"
    unfolding harmonic_process_def Let_def hs_def [symmetric] f_def [symmetric]
    by (auto split: if_splits sum.splits)
  then show ?thesis
    using assms(1) nonneg_harmonic_loop [OF assms(1,2)] by auto
qed

lemma boost_harmonic_total:
  assumes "0 \<le> dc" "7 powr dc \<le> float_max" "2 \<le> h" "h \<le> 7"
  shows "\<exists>r. boost_harmonic hb dc f enhanced h = Inr r"
proof -
  have "py_reciprocal (real h powr dc) = Inr (1 / (real h powr dc))"
    using py_pow_in_range(2) [OF assms] assms(3) by (simp add: py_reciprocal_def)
  then show ?thesis
    using py_pow_in_range(1) [OF assms] by (simp add: boost_harmonic_def Let_def)
qed

lemma harmonic_loop_total:
  assumes "0 \<le> dc" "7 powr dc \<le> float_max" "\<forall>h\<in>set hs. 2 \<le> h \<and> h \<le> 7"
  shows "\<exists>r. harmonic_loop hb dc f hs enhanced = Inr r"
  using assms(3)
proof (induction hs arbitrary: enhanced)
  case Nil
  then show ?case by simp
next
  case (Cons h hs)
  have "2 \<le> h" "h \<le> 7" using Cons.prems by auto
  from boost_harmonic_total [OF assms(1,2) this]
  obtain e1 where "boost_harmonic hb dc f enhanced h = Inr e1" by blast
  then show ?case using Cons.IH [of e1] Cons.prems by simp
qed

lemma harmonic_process_total:
  assumes "0 \<le> dc" "7 powr dc \<le> float_max"
  shows "\<exists>r. harmonic_process hb dc mags phases = Inr r"
proof -
  define hs :: "nat list" where "hs = [2..<8]"
  have "\<forall>h\<in>set hs. 2 \<le> h \<and> h \<le> 7" by (auto simp: hs_def)
  from harmonic_loop_total [OF assms this]
  obtain r where "harmonic_loop hb dc
      (np_argmax (take (min (length mags div 5) 100) mags)) hs mags = Inr r"
    by blast
  then show ?thesis
    unfolding harmonic_process_def Let_def hs_def [symmetric] by simp
qed

lemma nonneg_exciter:
  assumes "nonneg mags" "0 < d" "exciter_process d mags phases = Inr (m', p')"
  shows "nonneg m'"
proof -
  have "nonneg (map (\<lambda>m. tanh (m * d) / d) mags)"
    using assms(1,2) by (auto simp: nonneg_iff intro!: divide_nonneg_pos mult_nonneg_nonneg)
  moreover have "\<forall>y\<in>set (map (\<lambda>i. if n div 8 \<le> i \<and> i < n div 2 then 1.1 else (1::real)) [0..<n]). 0 \<le> y" for n
    by auto
  ultimately show ?thesis
    using assms(2,3) by (auto simp: exciter_process_def Let_def intro!: nonneg_map2_mult)
qed

lemma nonneg_transient:
  assumes "nonneg mags" "0 \<le> ab" "transient_process s ab prev mags phases = Inr ((m', p'), prev')"
  shows "nonneg m'"
proof (cases prev)
  case None
  then show ?thesis using assms by (simp add: transient_process_def)
next
  case (Some p)
  have g: "\<forall>y\<in>set (map (\<lambda>b. 1 + (if b then 1 else 0) * (ab - 1)) bs). 0 \<le> y" for bs
    using assms(2) by auto
  have "\<exists>bs. m' = map2 (*) mags (map (\<lambda>b. 1 + (if b then 1 else 0) * (ab - 1)) bs)"
    using assms(3) Some unfolding transient_process_def Let_def
    by (simp split: if_splits del: map_map; blast)
  then show ?thesis
    using nonneg_map2_mult [OF assms(1) g] by auto
qed

lemma nonneg_process:
  assumes "params_nonneg e" "params_in_range e" "nonneg mags"
    "process e mags phases = Inr ((m', p'), e')"
  shows "nonneg m'"
proof (cases e)
  case (HarmonicEnhancer hb dc pp)
  then show ?thesis using assms by (auto split: sum.splits intro: nonneg_harmonic_process)
next
  case (SpectralWidener w fr)
  then show ?thesis using assms by (auto simp: widener_process_def Let_def)
next
  case (ExciterEnhancer d fr)
  then show ?thesis using assms by (auto split: sum.splits intro: nonneg_exciter)
next
  case (TransientEnhancer s ab prev)
  then show ?thesis using assms by (auto split: sum.splits intro: nonneg_transient)
qed

lemma nonneg_chain:
  assumes "list_all params_nonneg chain" "list_all params_in_range chain" "nonneg mags"
    "apply_enhancer_chain mags phases chain = Inr ((m', p'), chain')"
  shows "nonneg m'"
  using assms
proof (induction chain arbitrary: mags phases chain')
  case Nil
  then show ?case by simp
next
  case (Cons e es)
  from Cons.prems(4) obtain m1 p1 e1 es1 where
    s: "process e mags phases = Inr ((m1, p1), e1)"
       "apply_enhancer_chain m1 p1 es = Inr ((m', p'), es1)"
    by (auto split: sum.splits)
  have "nonneg m1" using nonneg_process [OF _ _ Cons.prems(3) s(1)] Cons.prems(1,2) by simp
  then show ?case using Cons.IH [OF _ _ _ s(2)] Cons.prems(1,2) by simp
qed

lemma process_total:
  assumes "params_nonneg e" "params_in_range e"
  shows "(\<exists>r. process e mags phases = Inr r)
     \<or> (\<exists>s ab p. e = TransientEnhancer s ab (Some p) \<and> length p \<noteq> length mags \<and> length p \<noteq> 1)"
proof (cases e)
  case (HarmonicEnhancer hb dc pp)
  then show ?thesis
    using assms harmonic_process_total [of dc hb mags phases] by auto
next
  case (SpectralWidener w fr)
  then show ?thesis by simp
next
  case (ExciterEnhancer d fr)
  then show ?thesis using assms by (simp add: exciter_process_def Let_def)
next
  case (TransientEnhancer s ab prev)
  then show ?thesis
    by (auto simp: transient_process_def Let_def split: option.splits)
qed

lemma float_max_less: "float_max < 2 powr 2000"
proof -
  have "float_max < 2 ^ 53 * 2 ^ 971" by (simp add: float_max_def)
  also have "\<dots> = (2::real) ^ 1024" by (simp add: power_add [symmetric])
  also have "\<dots> \<le> (2::real) ^ 2000" by (intro power_increasing) auto
  also have "\<dots> = 2 powr 2000" by (simp add: powr_numeral)
  finally show ?thesis .
qed

lemma harmonic_overflow:
  "process (HarmonicEnhancer (3 / 2) 2000 True) [0, 1, 0, 0, 0, 0, 0, 0, 0, 0]
     [0, 0, 0, 0, 0, 0, 0, 0, 0, 0] = Inl OverflowError"
proof -
  define hs :: "nat list" where "hs = [2..<8]"
  have u: "hs = 2 # [3..<8]" by (simp add: hs_def upt_rec)
  have p: "py_pow 2 2000 = Inl OverflowError"
    using float_max_less by (simp add: py_pow_def Let_def)
  have b: "boost_harmonic (3 / 2) 2000 (Suc 0) [0, 1, 0, 0, 0, 0, 0, 0, 0, 0] 2
             = Inl OverflowError"
    by (simp add: boost_harmonic_def Let_def p)
  have l: "harmonic_loop (3 / 2) 2000 (Suc 0) hs [0, 1, 0, 0, 0, 0, 0, 0, 0, 0]
             = Inl OverflowError"
    unfolding u by (simp add: b)
  have "harmonic_process (3 / 2) 2000 [0, 1, 0, 0, 0, 0, 0, 0, 0, 0]
          [0, 0, 0, 0, 0, 0, 0, 0, 0, 0] = Inl OverflowError"
    unfolding harmonic_process_def Let_def hs_def [symmetric] by (simp add: l)
  then show ?thesis by simp
qed

lemma harmonic_run_example:
  "process (HarmonicEnhancer (3 / 2) 1 True)
     [0, 0, 0, 1, 0, 0, 0, 0, 0, 0, 0, 0, 0, 0, 0, 0, 0, 0, 0, 0]
     [0, 0, 0, 0, 0, 0, 0, 0, 0, 0, 0, 0, 0, 0, 0, 0, 0, 0, 0, 0]
   = Inr (([0, 0, 0, 1, 0, 0, 0, 0, 0, 0, 0, 0, 0, 0, 0, 0, 0, 0, 0, 0],
           [0, 0, 0, 0, 0, 0, 0, 0, 0, 0, 0, 0, 0, 0, 0, 0, 0, 0, 0, 0]),
          HarmonicEnhancer (3 / 2) 1 True)"
  by (simp add: harmonic_process_def boost_harmonic_def py_pow_def py_reciprocal_def
        float_max_def float_tiny_def np_hanning_def upt_rec Let_def)

lemma builtin_default_example:
  "builtin_stages default_upscaler [0, 0, 0, 1, 0, 0, 0, 0, 0, 0, 0, 0, 0, 0, 0, 0, 0, 0, 0, 0]
   = [0, 0, 0, 129591 / 50000, 0, 0, 0, 0, 0, 0, 0, 0, 0, 0, 0, 0, 0, 0, 0, 0]"
  by (simp add: builtin_stages_def default_upscaler_def noise_floor_stage_def
        harmonic_boost_stage_def intensity_stage_def dynamic_range_stage_def clarity_stage_def
        np_mean_def np_linspace_def py_slice_from_def py_bound_def upt_rec Let_def)

text \<open>
  Claim C9 as stated fails for two enhancers with non-negative parameters. An exciter
  with drive 0 computes \<open>tanh(m * 0) / 0\<close>, which is \<open>nan\<close> in every bin and not a
  non-negative value. A harmonic enhancer with harmonic decay 2000 that finds a
  fundamental computes \<open>2 ** 2000.0\<close>, which raises \<open>OverflowError\<close>: no magnitudes are
  returned.
\<close>

theorem enhancer_parameters_counterexample:
  "params_nonneg (ExciterEnhancer 0 (1000, 16000)) \<and> nonneg [1]
   \<and> process (ExciterEnhancer 0 (1000, 16000)) [1] [0] = Inl FloatNonFinite
   \<and> params_nonneg (HarmonicEnhancer (3 / 2) 2000 True)
   \<and> nonneg [0, 1, 0, 0, 0, 0, 0, 0, 0, 0]
   \<and> process (HarmonicEnhancer (3 / 2) 2000 True) [0, 1, 0, 0, 0, 0, 0, 0, 0, 0]
         [0, 0, 0, 0, 0, 0, 0, 0, 0, 0] = Inl OverflowError"
  using harmonic_overflow by (simp add: exciter_process_def)

text \<open>
  Claim C9, amended: the drive of an exciter is strictly positive, and the harmonic decay
  of a harmonic enhancer is such that \<open>7 ** harmonic_decay\<close> does not exceed the largest
  float. Let the magnitudes be non-negative. With non-negative upscaler parameters, the
  noise floor, harmonic boost, intensity, dynamic range and clarity stages, and their
  composition, return non-negative magnitudes. An enhancer with non-negative parameters
  in that range returns, unless it is a transient enhancer whose stored magnitudes do not
  fit the frame, and the magnitudes it returns are non-negative; so are the magnitudes
  returned by a chain of such enhancers.
\<close>

theorem magnitudes_stay_nonneg:
  "nonneg mags \<Longrightarrow>
     (config_nonneg self \<longrightarrow>
         nonneg (noise_floor_stage (noise_reduction self) mags)
       \<and> nonneg (harmonic_boost_stage (harmonics_boost self) mags)
       \<and> nonneg (intensity_stage (intensity self) mags)
       \<and> nonneg (dynamic_range_stage (dynamic_boost self) mags)
       \<and> nonneg (clarity_stage (clarity_enhance self) mags)
       \<and> nonneg (builtin_stages self mags))
   \<and> (params_nonneg e \<and> params_in_range e \<longrightarrow>
         ((\<exists>r. process e mags phases = Inr r)
           \<or> (\<exists>s ab p. e = TransientEnhancer s ab (Some p) \<and> length p \<noteq> length mags \<and> length p \<noteq> 1))
       \<and> (process e mags phases = Inr ((m', p'), e') \<longrightarrow> nonneg m'))
   \<and> (list_all params_nonneg chain \<and> list_all params_in_range chain
        \<and> apply_enhancer_chain mags phases chain = Inr ((m'', p''), chain') \<longrightarrow> nonneg m'')"
  using nonneg_chain [of chain mags phases m'' p'' chain']
    nonneg_process [of e mags phases m' p' e'] process_total [of e mags phases]
  by (simp add: nonneg_builtin_stages nonneg_clarity nonneg_dynamic_range nonneg_intensity
        nonneg_harmonic_boost nonneg_noise_floor config_nonneg_def)

theorem magnitudes_stay_nonneg_witness:
  "nonneg [0, 0, 0, 1, 0, 0, 0, 0, 0, 0, 0, 0, 0, 0, 0, 0, 0, 0, 0, 0]
   \<and> config_nonneg default_upscaler
   \<and> builtin_stages default_upscaler [0, 0, 0, 1, 0, 0, 0, 0, 0, 0, 0, 0, 0, 0, 0, 0, 0, 0, 0, 0]
       = [0, 0, 0, 129591 / 50000, 0, 0, 0, 0, 0, 0, 0, 0, 0, 0, 0, 0, 0, 0, 0, 0]
   \<and> nonneg (builtin_stages default_upscaler [0, 0, 0, 1, 0, 0, 0, 0, 0, 0, 0, 0, 0, 0, 0, 0, 0, 0, 0, 0])
   \<and> params_nonneg (HarmonicEnhancer (3 / 2) 1 True) \<and> params_in_range (HarmonicEnhancer (3 / 2) 1 True)
   \<and> process (HarmonicEnhancer (3 / 2) 1 True) [0, 0, 0, 1, 0, 0, 0, 0, 0, 0, 0, 0, 0, 0, 0, 0, 0, 0, 0, 0]
         [0, 0, 0, 0, 0, 0, 0, 0, 0, 0, 0, 0, 0, 0, 0, 0, 0, 0, 0, 0]
       = Inr (([0, 0, 0, 1, 0, 0, 0, 0, 0, 0, 0, 0, 0, 0, 0, 0, 0, 0, 0, 0],
               [0, 0, 0, 0, 0, 0, 0, 0, 0, 0, 0, 0, 0, 0, 0, 0, 0, 0, 0, 0]), HarmonicEnhancer (3 / 2) 1 True)
   \<and> list_all params_nonneg [ExciterEnhancer 1 (1000, 16000), TransientEnhancer (1 / 2) 2 None]
   \<and> list_all params_in_range [ExciterEnhancer 1 (1000, 16000), TransientEnhancer (1 / 2) 2 None]
   \<and> apply_enhancer_chain [0, 0, 0, 1, 0, 0, 0, 0, 0, 0, 0, 0, 0, 0, 0, 0, 0, 0, 0, 0]
         [0, 0, 0, 0, 0, 0, 0, 0, 0, 0, 0, 0, 0, 0, 0, 0, 0, 0, 0, 0]
         [ExciterEnhancer 1 (1000, 16000), TransientEnhancer (1 / 2) 2 None]
       = Inr (([0, 0, 0, tanh 1 * (11 / 10), 0, 0, 0, 0, 0, 0, 0, 0, 0, 0, 0, 0, 0, 0, 0, 0],
               [0, 0, 0, 0, 0, 0, 0, 0, 0, 0, 0, 0, 0, 0, 0, 0, 0, 0, 0, 0]),
              [ExciterEnhancer 1 (1000, 16000),
               TransientEnhancer (1 / 2) 2 (Some [0, 0, 0, tanh 1 * (11 / 10), 0, 0, 0, 0, 0, 0, 0, 0, 0, 0, 0, 0, 0, 0, 0, 0])])
   \<and> nonneg [0, 0, 0, tanh 1 * (11 / 10), 0, 0, 0, 0, 0, 0, 0, 0, 0, 0, 0, 0, 0, 0, 0, 0]"
  using magnitudes_stay_nonneg [of "[0, 0, 0, 1, 0, 0, 0, 0, 0, 0, 0, 0, 0, 0, 0, 0, 0, 0, 0, 0]" default_upscaler "HarmonicEnhancer (3 / 2) 1 True"
      "[0, 0, 0, 0, 0, 0, 0, 0, 0, 0, 0, 0, 0, 0, 0, 0, 0, 0, 0, 0]" "[0, 0, 0, 1, 0, 0, 0, 0, 0, 0, 0, 0, 0, 0, 0, 0, 0, 0, 0, 0]" "[0, 0, 0, 0, 0, 0, 0, 0, 0, 0, 0, 0, 0, 0, 0, 0, 0, 0, 0, 0]" "HarmonicEnhancer (3 / 2) 1 True"
      "[ExciterEnhancer 1 (1000, 16000), TransientEnhancer (1 / 2) 2 None]"
      "[0, 0, 0, tanh 1 * (11 / 10), 0, 0, 0, 0, 0, 0, 0, 0, 0, 0, 0, 0, 0, 0, 0, 0]" "[0, 0, 0, 0, 0, 0, 0, 0, 0, 0, 0, 0, 0, 0, 0, 0, 0, 0, 0, 0]"
      "[ExciterEnhancer 1 (1000, 16000), TransientEnhancer (1 / 2) 2 (Some [0, 0, 0, tanh 1 * (11 / 10), 0, 0, 0, 0, 0, 0, 0, 0, 0, 0, 0, 0, 0, 0, 0, 0])]"]
    harmonic_run_example builtin_default_example
  by (simp add: config_nonneg_def default_upscaler_def exciter_process_def upt_rec
        transient_process_def float_max_def)

section \<open>Stereo processing and the state of the enhancers\<close>

lemma builtin_stages_two_transients: "builtin_stages (two_transients p q) mags = mags"
  by (simp add: builtin_stages_def two_transients_def clarity_stage_def dynamic_range_stage_def
        intensity_stage_def harmonic_boost_stage_def noise_floor_stage_def)

lemma process_frame_const4:
  "0 < c \<Longrightarrow>
   process_frame (two_transients p q) [c, c, c, c] =
     (case apply_enhancer_chain [4 * c, 0, 0] [0, 0, 0]
             [TransientEnhancer 0 (1 / 2) p, TransientEnhancer 0 (1 / 2) q] of
        Inl e \<Rightarrow> Inl e
      | Inr (spectrum, chain') \<Rightarrow>
          (case synthesize spectrum of
             Inl e \<Rightarrow> Inl e
           | Inr f \<Rightarrow> Inr (f, two_transients p q\<lparr>enhancer_chain := chain'\<rparr>)))"
  by (simp add: process_frame_def analyze_const4 builtin_stages_two_transients)
     (simp add: two_transients_def)

lemma frames:
  "process_frame (two_transients None None) [1, 1, 1, 1]
     = Inr ([1, 1, 1, 1], two_transients (Some [4, 0, 0]) (Some [4, 0, 0]))"
  "process_frame (two_transients (Some [4, 0, 0]) (Some [4, 0, 0])) [1, 1, 1, 1]
     = Inr ([1, 1, 1, 1], two_transients (Some [4, 0, 0]) (Some [4, 0, 0]))"
  "process_frame (two_transients (Some [4, 0, 0]) (Some [4, 0, 0])) [2, 2, 2, 2]
     = Inr ([1, 1, 1, 1], two_transients (Some [8, 0, 0]) (Some [4, 0, 0]))"
  "process_frame (two_transients (Some [8, 0, 0]) (Some [4, 0, 0])) [2, 2, 2, 2]
     = Inr ([1, 1, 1, 1], two_transients (Some [8, 0, 0]) (Some [8, 0, 0]))"
  "process_frame (two_transients (Some [8, 0, 0]) (Some [8, 0, 0])) [2, 2, 2, 2]
     = Inr ([2, 2, 2, 2], two_transients (Some [8, 0, 0]) (Some [8, 0, 0]))"
  "process_frame (two_transients None None) [2, 2, 2, 2]
     = Inr ([2, 2, 2, 2], two_transients (Some [8, 0, 0]) (Some [8, 0, 0]))"
  by (simp add: process_frame_const4 transient_process_def np_mean_def synthesize_dc4;
      simp add: two_transients_def)+


lemma left_run:
  "process_channel (two_transients None None) [1, 1] 4 2
     = Inr ([19 / 20, 19 / 20], two_transients (Some [4, 0, 0]) (Some [4, 0, 0]))"
proof -
  have "accumulate_channel (two_transients None None) [1, 1] 4 2
          = Inr ([3 / 8, 3 / 8], two_transients (Some [4, 0, 0]) (Some [4, 0, 0]))"
    by (simp add: accumulate_channel_def pad_const2 offsets_10 slice4 frames window4 add_into4
          py_floordiv_def)
  then show ?thesis
    by (simp add: process_channel_def normalize_level_def)
qed

lemma right_run_carried:
  "process_channel (two_transients (Some [4, 0, 0]) (Some [4, 0, 0])) [2, 2] 4 2
     = Inr ([19 / 40, 19 / 20], two_transients (Some [8, 0, 0]) (Some [8, 0, 0]))"
proof -
  have "accumulate_channel (two_transients (Some [4, 0, 0]) (Some [4, 0, 0])) [2, 2] 4 2
          = Inr ([3 / 8, 3 / 4], two_transients (Some [8, 0, 0]) (Some [8, 0, 0]))"
    by (simp add: accumulate_channel_def pad_const2 offsets_10 slice4 frames window4 add_into4
          py_floordiv_def)
  then show ?thesis
    by (simp add: process_channel_def normalize_level_def)
qed

lemma right_run_fresh:
  "process_channel (two_transients None None) [2, 2] 4 2
     = Inr ([19 / 20, 19 / 20], two_transients (Some [8, 0, 0]) (Some [8, 0, 0]))"
proof -
  have "accumulate_channel (two_transients None None) [2, 2] 4 2
          = Inr ([3 / 4, 3 / 4], two_transients (Some [8, 0, 0]) (Some [8, 0, 0]))"
    by (simp add: accumulate_channel_def pad_const2 offsets_10 slice4 frames window4 add_into4
          py_floordiv_def)
  then show ?thesis
    by (simp add: process_channel_def normalize_level_def)
qed

lemma stereo_run:
  "process_audio (two_transients None None) (Stereo [(1, 2), (1, 2)]) 4 2
     = Inr (Stereo [(19 / 20, 19 / 40), (19 / 20, 19 / 20)],
            two_transients (Some [8, 0, 0]) (Some [8, 0, 0]))"
  by (simp add: process_audio_def left_run right_run_carried column_stack_def)

text \<open>
  Claim C1, evaluated on a stereo input. With two transient enhancers in the chain, frame
  size 4 and hop length 2, the run of the left channel \<open>[1, 1]\<close> starts with enhancers that
  hold no magnitudes and ends with enhancers that hold \<open>[4, 0, 0]\<close>. The stereo input with
  left channel \<open>[1, 1]\<close> and right channel \<open>[2, 2]\<close> has the right output column
  \<open>[0.475, 0.95]\<close>, whereas the channel pipeline started with freshly constructed
  enhancers returns \<open>[0.95, 0.95]\<close> for the right channel: the magnitudes stored while
  the left channel was processed are still there when the right channel starts.
\<close>

theorem stereo_state_carries_over:
  "process_channel (two_transients None None) [1, 1] 4 2
     = Inr ([19 / 20, 19 / 20], two_transients (Some [4, 0, 0]) (Some [4, 0, 0]))
   \<and> process_audio (two_transients None None) (Stereo [(1, 2), (1, 2)]) 4 2
     = Inr (Stereo [(19 / 20, 19 / 40), (19 / 20, 19 / 20)],
            two_transients (Some [8, 0, 0]) (Some [8, 0, 0]))
   \<and> process_channel (two_transients None None) [2, 2] 4 2
     = Inr ([19 / 20, 19 / 20], two_transients (Some [8, 0, 0]) (Some [8, 0, 0]))"
  using left_run stereo_run right_run_fresh by simp

end
